theory Spec2Isabelle
  imports Main "HOL-Library.Word"
begin

section \<open>Values of the Go runtime and of the libraries the code calls\<close>

text \<open>
  Failures are values. \<open>NilPointerDereference\<close> is the run-time panic of reading through a
  nil pointer; it unwinds every caller. The other constructors are ordinary \<open>error\<close>
  values that a function returns and its caller inspects.
\<close>

datatype error =
    NilPointerDereference
  | SyntaxError string
  | RangeError string
  | ApiError string
  | NoNodePools

definition is_panic :: "error \<Rightarrow> bool" where
  "is_panic e = (e = NilPointerDereference)"

subsection \<open>strconv and fmt\<close>

definition decimalDigits :: "(char \<times> nat) list" where
  "decimalDigits =
     [(CHR ''0'', 0), (CHR ''1'', 1), (CHR ''2'', 2), (CHR ''3'', 3), (CHR ''4'', 4),
      (CHR ''5'', 5), (CHR ''6'', 6), (CHR ''7'', 7), (CHR ''8'', 8), (CHR ''9'', 9)]"

definition digitChar :: "nat \<Rightarrow> char" where
  "digitChar n = fst (decimalDigits ! (n mod 10))"

definition digitVal :: "char \<Rightarrow> nat option" where
  "digitVal c = map_of decimalDigits c"

function formatUint :: "nat \<Rightarrow> string" where
  "formatUint n = (if n < 10 then [digitChar n] else formatUint (n div 10) @ [digitChar n])"
  by pat_completeness auto
termination
  by (relation "measure id") auto

declare formatUint.simps [simp del]

text \<open>\<open>strconv.Itoa\<close>, which is also what the verb \<open>%d\<close> of \<open>fmt.Sprintf\<close> prints.\<close>

definition Itoa :: "int \<Rightarrow> string" where
  "Itoa i = (if i < 0 then CHR ''-'' # formatUint (nat (- i)) else formatUint (nat i))"

fun parseDigits :: "nat \<Rightarrow> string \<Rightarrow> nat option" where
  "parseDigits acc [] = Some acc"
| "parseDigits acc (c # cs) =
     (case digitVal c of None \<Rightarrow> None | Some d \<Rightarrow> parseDigits (10 * acc + d) cs)"

definition parseUint :: "string \<Rightarrow> nat option" where
  "parseUint s = (if s = [] then None else parseDigits 0 s)"

text \<open>An optional sign, then at least one decimal digit and nothing else.\<close>

definition parseSigned :: "string \<Rightarrow> int option" where
  "parseSigned s =
     (case s of
        [] \<Rightarrow> None
      | c # cs \<Rightarrow>
          if c = CHR ''+'' then map_option int (parseUint cs)
          else if c = CHR ''-'' then map_option (\<lambda>n. - int n) (parseUint cs)
          else map_option int (parseUint s))"

text \<open>\<open>strconv.ParseInt(s, 10, bitSize)\<close>: a value outside the signed range of the bit
  size is an error.\<close>

definition ParseInt :: "string \<Rightarrow> nat \<Rightarrow> error + int" where
  "ParseInt s bitSize =
     (case parseSigned s of
        None \<Rightarrow> Inl (SyntaxError s)
      | Some v \<Rightarrow>
          if - (2 ^ (bitSize - 1)) \<le> v \<and> v < 2 ^ (bitSize - 1) then Inr v
          else Inl (RangeError s))"

text \<open>\<open>strconv.Atoi\<close>: the Go \<open>int\<close> of the supported platforms has 64 bits.\<close>

definition Atoi :: "string \<Rightarrow> error + int" where
  "Atoi s = ParseInt s 64"

text \<open>The verb \<open>%t\<close> of \<open>fmt.Sprintf\<close>.\<close>

definition Sprintf_t :: "bool \<Rightarrow> string" where
  "Sprintf_t b = (if b then ''true'' else ''false'')"

definition ParseBool :: "string \<Rightarrow> error + bool" where
  "ParseBool s =
     (if s \<in> set [''1'', ''t'', ''T'', ''TRUE'', ''true'', ''True''] then Inr True
      else if s \<in> set [''0'', ''f'', ''F'', ''FALSE'', ''false'', ''False''] then Inr False
      else Inl (SyntaxError s))"

subsection \<open>intstr.IntOrString\<close>

datatype intstr_Type = intstr_Int | intstr_String

record IntOrString =
  Type :: intstr_Type
  IntVal :: "32 word"
  StrVal :: string

definition FromInt :: "int \<Rightarrow> IntOrString" where
  "FromInt val = \<lparr>Type = intstr_Int, IntVal = of_int val, StrVal = ''''\<rparr>"

definition FromString :: "string \<Rightarrow> IntOrString" where
  "FromString val = \<lparr>Type = intstr_String, IntVal = 0, StrVal = val\<rparr>"

definition Parse :: "string \<Rightarrow> IntOrString" where
  "Parse val = (case Atoi val of Inl err \<Rightarrow> FromString val | Inr i \<Rightarrow> FromInt i)"

definition IntOrString_String :: "IntOrString \<Rightarrow> string" where
  "IntOrString_String v =
     (if Type v = intstr_String then StrVal v else Itoa (sint (IntVal v)))"

subsection \<open>Maps of annotations\<close>

text \<open>
  A Go \<open>map[string]string\<close> field is either nil (\<open>None\<close>) or a map. Reading a nil map, or
  a missing key, gives the empty string; \<open>delete\<close> on a nil map does nothing.
\<close>

type_synonym annotations = "(string \<rightharpoonup> string) option"

definition index :: "annotations \<Rightarrow> string \<Rightarrow> string" where
  "index a k = (case a of None \<Rightarrow> '''' | Some m \<Rightarrow> (case m k of None \<Rightarrow> '''' | Some v \<Rightarrow> v))"

definition lookup :: "annotations \<Rightarrow> string \<Rightarrow> string option" where
  "lookup a k = (case a of None \<Rightarrow> None | Some m \<Rightarrow> m k)"

definition delete :: "annotations \<Rightarrow> string \<Rightarrow> annotations" where
  "delete a k = (case a of None \<Rightarrow> None | Some m \<Rightarrow> Some (m(k := None)))"

text \<open>
  The statement the source repeats at every write:
  \<^verbatim>\<open>if a == nil { a = map[string]string{k: v} } else { a[k] = v }\<close>
\<close>

definition assign :: "annotations \<Rightarrow> string \<Rightarrow> string \<Rightarrow> annotations" where
  "assign a k v = (case a of None \<Rightarrow> Some [k \<mapsto> v] | Some m \<Rightarrow> Some (m(k \<mapsto> v)))"

subsection \<open>Annotation keys\<close>

text \<open>
  Modelled from the spec: the five key constants are declared in a file of the repository
  that is not among the sources under study. The spec says that the capture annotations
  are distinct keys under a reserved prefix and that the eviction-safety marker is the
  well-known key of the cluster autoscaler. Only the distinctness of the three keys
  written on a deployment is used below.
\<close>

definition ClusterAutoScalerSafeEvict :: string where
  "ClusterAutoScalerSafeEvict = ''cluster-autoscaler.kubernetes.io/safe-to-evict''"

definition KubecostTurnDownReplicas :: string where
  "KubecostTurnDownReplicas = ''kubecost.kubernetes.io/turn-down-replicas''"

definition KubecostTurnDownRollout :: string where
  "KubecostTurnDownRollout = ''kubecost.kubernetes.io/turn-down-rollout''"

definition KubecostTurnDownSafeEvictFlag :: string where
  "KubecostTurnDownSafeEvictFlag = ''kubecost.kubernetes.io/safe-evict''"

definition KubecostTurnDownJobSuspend :: string where
  "KubecostTurnDownJobSuspend = ''kubecost.kubernetes.io/job-suspend''"

section \<open>Workloads\<close>

record RollingUpdateDeployment =
  MaxUnavailable :: "IntOrString option"
  MaxSurge :: "IntOrString option"

text \<open>
  The fields of \<open>appsv1.Deployment\<close> the flattener reads or writes:
  \<open>Name\<close>, \<open>Namespace\<close>, \<open>Annotations\<close>, \<open>Spec.Replicas\<close> (an \<open>*int32\<close>),
  \<open>Spec.Strategy.RollingUpdate\<close> (a pointer) and \<open>Spec.Template.Annotations\<close>.
\<close>

record Deployment =
  dep_Name :: string
  dep_Namespace :: string
  dep_Annotations :: annotations
  dep_Replicas :: "32 word option"
  dep_RollingUpdate :: "RollingUpdateDeployment option"
  dep_TemplateAnnotations :: annotations

record DaemonSet =
  ds_Name :: string
  ds_Namespace :: string
  ds_Annotations :: annotations
  ds_TemplateAnnotations :: annotations

record CronJob =
  job_Name :: string
  job_Namespace :: string
  job_Annotations :: annotations
  job_Suspend :: "bool option"

section \<open>The flattener on one deployment\<close>

definition setSafeEvict :: "Deployment \<Rightarrow> Deployment \<times> bool" where
  "setSafeEvict deployment =
     (let previousValue =
            (if dep_TemplateAnnotations deployment \<noteq> None
             then index (dep_TemplateAnnotations deployment) ClusterAutoScalerSafeEvict
             else '''');
          deployment = deployment\<lparr>dep_TemplateAnnotations :=
            assign (dep_TemplateAnnotations deployment) ClusterAutoScalerSafeEvict ''true''\<rparr>
      in if previousValue = '''' then (deployment, True)
         else (deployment\<lparr>dep_Annotations :=
                 assign (dep_Annotations deployment) KubecostTurnDownSafeEvictFlag previousValue\<rparr>,
               True))"

text \<open>\<open>*deployment.Spec.Replicas\<close> is read before anything else: a nil pointer panics.\<close>

definition zeroOutReplicas :: "Deployment \<Rightarrow> error + Deployment \<times> bool" where
  "zeroOutReplicas deployment =
     (case dep_Replicas deployment of
        None \<Rightarrow> Inl NilPointerDereference
      | Some replicas \<Rightarrow>
          if replicas = 0 then Inr (deployment, False)
          else
            let oldReplicas = replicas;
                deployment = deployment\<lparr>dep_Replicas := Some 0\<rparr>
            in Inr (deployment\<lparr>dep_Annotations :=
                      assign (dep_Annotations deployment) KubecostTurnDownReplicas
                        (Itoa (sint oldReplicas))\<rparr>,
                    True))"

text \<open>
  \<open>maxUnavailable := rollingUpdate.MaxUnavailable\<close> copies a pointer, so both names denote
  one \<open>IntOrString\<close> object. The store \<open>h\<close> holds that object at the address \<open>p\<close>: the
  source writes \<open>Type\<close> and \<open>IntVal\<close> through \<open>rollingUpdate.MaxUnavailable\<close> and
  afterwards reads \<open>maxUnavailable.String()\<close>, both at \<open>p\<close>. When the pointer is nil the
  source stores the address of a fresh value in the strategy and the local
  \<open>maxUnavailable\<close> stays nil.
\<close>

definition zeroOutRollingUpdate :: "Deployment \<Rightarrow> Deployment \<times> bool" where
  "zeroOutRollingUpdate deployment =
     (case dep_RollingUpdate deployment of
        None \<Rightarrow> (deployment, False)
      | Some rollingUpdate \<Rightarrow>
          let (stored, toWrite) =
                (case MaxUnavailable rollingUpdate of
                   None \<Rightarrow> (FromInt 1, '''')
                 | Some v \<Rightarrow>
                     let p = (0 :: nat);
                         h = (\<lambda>a :: nat. v);
                         maxUnavailable = p;
                         h = h(p := (h p)\<lparr>Type := intstr_Int\<rparr>);
                         h = h(p := (h p)\<lparr>IntVal := 1\<rparr>)
                     in (h p, IntOrString_String (h maxUnavailable)));
              deployment = deployment\<lparr>dep_RollingUpdate :=
                Some (rollingUpdate\<lparr>MaxUnavailable := Some stored\<rparr>)\<rparr>
          in (deployment\<lparr>dep_Annotations :=
                assign (dep_Annotations deployment) KubecostTurnDownRollout toWrite\<rparr>,
              True))"

definition resetSafeEvict :: "Deployment \<Rightarrow> Deployment \<times> bool" where
  "resetSafeEvict deployment =
     (if dep_Annotations deployment = None then (deployment, False)
      else
        case lookup (dep_Annotations deployment) KubecostTurnDownSafeEvictFlag of
          None \<Rightarrow>
            (if dep_TemplateAnnotations deployment \<noteq> None
             then deployment\<lparr>dep_TemplateAnnotations :=
                    delete (dep_TemplateAnnotations deployment) ClusterAutoScalerSafeEvict\<rparr>
             else deployment,
             True)
        | Some safeEvictEntry \<Rightarrow>
            let deployment = deployment\<lparr>dep_Annotations :=
                  delete (dep_Annotations deployment) KubecostTurnDownSafeEvictFlag\<rparr>
            in (deployment\<lparr>dep_TemplateAnnotations :=
                  assign (dep_TemplateAnnotations deployment) ClusterAutoScalerSafeEvict
                    safeEvictEntry\<rparr>,
                True))"

definition resetReplicas :: "Deployment \<Rightarrow> Deployment \<times> bool" where
  "resetReplicas deployment =
     (if dep_Annotations deployment = None then (deployment, False)
      else
        case lookup (dep_Annotations deployment) KubecostTurnDownReplicas of
          None \<Rightarrow> (deployment, False)
        | Some replicasEntry \<Rightarrow>
            (case ParseInt replicasEntry 32 of
               Inl err \<Rightarrow> (deployment, False)
             | Inr replicas \<Rightarrow>
                 let numReplicas = (of_int replicas :: 32 word);
                     deployment = deployment\<lparr>dep_Annotations :=
                       delete (dep_Annotations deployment) KubecostTurnDownReplicas\<rparr>
                 in (deployment\<lparr>dep_Replicas := Some numReplicas\<rparr>, True)))"

definition resetRollingUpdate :: "Deployment \<Rightarrow> Deployment \<times> bool" where
  "resetRollingUpdate deployment =
     (if dep_Annotations deployment = None then (deployment, False)
      else
        case lookup (dep_Annotations deployment) KubecostTurnDownRollout of
          None \<Rightarrow> (deployment, False)
        | Some maxUnavailableEntry \<Rightarrow>
            let maxUnavailable = Parse maxUnavailableEntry;
                deployment = deployment\<lparr>dep_Annotations :=
                  delete (dep_Annotations deployment) KubecostTurnDownRollout\<rparr>;
                rollingUpdate =
                  (case dep_RollingUpdate deployment of
                     None \<Rightarrow> \<lparr>MaxUnavailable = Some maxUnavailable, MaxSurge = None\<rparr>
                   | Some rollingUpdate \<Rightarrow>
                       rollingUpdate\<lparr>MaxUnavailable := Some maxUnavailable\<rparr>)
            in (deployment\<lparr>dep_RollingUpdate := Some rollingUpdate\<rparr>, True))"

text \<open>
  The functions on one workload return the object as the call leaves it and whether the
  call went on to send a patch to the API server (\<open>True\<close>) or returned before
  (\<open>False\<close>). The object returned is the one in the memory of the call. The patch is
  the difference of its encoding before and after, so a patch that the server accepts
  leaves the server with the decoding of the returned object (\<open>listedDeployment\<close>,
  \<open>listedDaemonSet\<close> and \<open>listedCronJob\<close> below), and that is the object a later call
  receives.
\<close>

definition FlattenDeployment :: "Deployment \<Rightarrow> error + Deployment \<times> bool" where
  "FlattenDeployment deployment =
     (let (deployment, updateEvictFlag) =
            (if dep_Namespace deployment = ''kube-system'' then setSafeEvict deployment
             else (deployment, False))
      in case zeroOutReplicas deployment of
           Inl panic \<Rightarrow> Inl panic
         | Inr (deployment, updateReplicas) \<Rightarrow>
             let (deployment, updateRollout) = zeroOutRollingUpdate deployment
             in if \<not> updateEvictFlag \<and> \<not> updateReplicas \<and> \<not> updateRollout
                then Inr (deployment, False)
                else Inr (deployment, True))"

definition ExpandDeployment :: "Deployment \<Rightarrow> error + Deployment \<times> bool" where
  "ExpandDeployment deployment =
     (let (deployment, updateEvictFlag) =
            (if dep_Namespace deployment = ''kube-system'' then resetSafeEvict deployment
             else (deployment, False));
          (deployment, updateReplicas) = resetReplicas deployment;
          (deployment, updateRollout) = resetRollingUpdate deployment
      in if \<not> updateEvictFlag \<and> \<not> updateReplicas \<and> \<not> updateRollout
         then Inr (deployment, False)
         else Inr (deployment, True))"

section \<open>The flattener on one daemon set and on one cron job\<close>

definition FlattenDaemonSet :: "DaemonSet \<Rightarrow> error + DaemonSet \<times> bool" where
  "FlattenDaemonSet daemonset =
     (if ds_TemplateAnnotations daemonset \<noteq> None
         \<and> lookup (ds_TemplateAnnotations daemonset) ClusterAutoScalerSafeEvict = Some ''true''
      then Inr (daemonset, False)
      else Inr (daemonset\<lparr>ds_TemplateAnnotations :=
                  assign (ds_TemplateAnnotations daemonset) ClusterAutoScalerSafeEvict ''true''\<rparr>,
                True))"

definition ExpandDaemonSet :: "DaemonSet \<Rightarrow> error + DaemonSet \<times> bool" where
  "ExpandDaemonSet daemonset =
     (if ds_TemplateAnnotations daemonset = None then Inr (daemonset, False)
      else Inr (daemonset\<lparr>ds_TemplateAnnotations :=
                  delete (ds_TemplateAnnotations daemonset) ClusterAutoScalerSafeEvict\<rparr>,
                True))"

definition SuspendJob :: "CronJob \<Rightarrow> error + CronJob \<times> bool" where
  "SuspendJob job =
     (let previousValue = job_Suspend job;
          job = job\<lparr>job_Suspend := Some True\<rparr>;
          job = (case previousValue of
                   None \<Rightarrow> job
                 | Some b \<Rightarrow> job\<lparr>job_Annotations :=
                     assign (job_Annotations job) KubecostTurnDownJobSuspend (Sprintf_t b)\<rparr>)
      in Inr (job, True))"

definition ResumeJob :: "CronJob \<Rightarrow> error + CronJob \<times> bool" where
  "ResumeJob job =
     (case (if job_Annotations job \<noteq> None
            then lookup (job_Annotations job) KubecostTurnDownJobSuspend else None) of
        None \<Rightarrow> Inr (job\<lparr>job_Suspend := Some False\<rparr>, True)
      | Some suspendEntry \<Rightarrow>
          (case ParseBool suspendEntry of
             Inl err \<Rightarrow> Inl err
           | Inr suspend \<Rightarrow>
               let job = job\<lparr>job_Annotations :=
                     delete (job_Annotations job) KubecostTurnDownJobSuspend\<rparr>
               in Inr (job\<lparr>job_Suspend := Some suspend\<rparr>, True)))"


section \<open>Objects as the API server holds them\<close>

text \<open>
  The objects travel as JSON. The API types leave an annotation map out of the encoding
  when it is nil and when it is empty (\<open>omitempty\<close>), so it is nil after decoding in
  both cases; \<open>intstr.IntOrString\<close> encodes as its number when its type is \<open>Int\<close> and as
  its string otherwise, and decodes into a zero value, so the field not encoded is lost.
  A pointer field that is set is encoded whatever it points to. The server is taken to
  store what the patch says: it adds no default and no change of its own.
\<close>

definition decodedAnnotations :: "annotations \<Rightarrow> annotations" where
  "decodedAnnotations a =
     (case a of None \<Rightarrow> None | Some m \<Rightarrow> if dom m = {} then None else Some m)"

definition decodedIntOrString :: "IntOrString \<Rightarrow> IntOrString" where
  "decodedIntOrString v =
     (if Type v = intstr_String then \<lparr>Type = intstr_String, IntVal = 0, StrVal = StrVal v\<rparr>
      else \<lparr>Type = intstr_Int, IntVal = IntVal v, StrVal = ''''\<rparr>)"

definition decodedRollingUpdate :: "RollingUpdateDeployment \<Rightarrow> RollingUpdateDeployment" where
  "decodedRollingUpdate ru =
     \<lparr>MaxUnavailable = map_option decodedIntOrString (MaxUnavailable ru),
      MaxSurge = map_option decodedIntOrString (MaxSurge ru)\<rparr>"

text \<open>
  The object the server holds after it has accepted the patch that takes it to the
  given object, which is also the object a later list returns.
\<close>

definition listedDeployment :: "Deployment \<Rightarrow> Deployment" where
  "listedDeployment d =
     d\<lparr>dep_Annotations := decodedAnnotations (dep_Annotations d),
       dep_RollingUpdate := map_option decodedRollingUpdate (dep_RollingUpdate d),
       dep_TemplateAnnotations := decodedAnnotations (dep_TemplateAnnotations d)\<rparr>"

definition listedDaemonSet :: "DaemonSet \<Rightarrow> DaemonSet" where
  "listedDaemonSet d =
     d\<lparr>ds_Annotations := decodedAnnotations (ds_Annotations d),
       ds_TemplateAnnotations := decodedAnnotations (ds_TemplateAnnotations d)\<rparr>"

definition listedCronJob :: "CronJob \<Rightarrow> CronJob" where
  "listedCronJob j = j\<lparr>job_Annotations := decodedAnnotations (job_Annotations j)\<rparr>"

section \<open>The cluster and the collaborators\<close>

text \<open>
  \<open>provider.NodePool\<close> is an interface; the manager calls its methods \<open>Name()\<close> and
  \<open>AutoScaling()\<close> only.
\<close>

record NodePool =
  np_Name :: string
  np_AutoScaling :: bool

record Node =
  node_Name :: string
  node_Labels :: "string \<rightharpoonup> string"

text \<open>
  Every call that leaves the process: to the API server (list, patch), to the compute
  provider and to the drainer. A patch is addressed by namespace and name.
\<close>

datatype Call =
    ListNodes
  | GetNodePools
  | ListDeployments
  | ListDaemonSets
  | ListCronJobs
  | PatchDeployment string string
  | PatchDaemonSet string string
  | PatchCronJob string string
  | Drain string
  | SetNodePoolSizes "NodePool list" int
  | ResetNodePoolSizes "NodePool list"

text \<open>
  The collaborators are parameters: \<open>fails c\<close> is the error the call \<open>c\<close> comes back
  with, if any; \<open>providerNodePools\<close> is what a successful \<open>GetNodePools\<close> returns, and
  \<open>GetPoolID\<close> is the provider's function from a node to the identifier of its pool.
\<close>

record Collaborators =
  fails :: "Call \<Rightarrow> error option"
  providerNodePools :: "NodePool list"
  GetPoolID :: "Node \<Rightarrow> string"

text \<open>The objects held by the API server, and the calls made so far, oldest first.\<close>

record World =
  deployments :: "Deployment list"
  daemonSets :: "DaemonSet list"
  cronJobs :: "CronJob list"
  nodes :: "Node list"
  calls :: "Call list"

definition call :: "Call \<Rightarrow> World \<Rightarrow> World" where
  "call c w = w\<lparr>calls := calls w @ [c]\<rparr>"

text \<open>
  An accepted patch replaces the server's object of that namespace and name by the
  patched object as the server holds it.
\<close>

definition storeDeployment :: "Deployment \<Rightarrow> World \<Rightarrow> World" where
  "storeDeployment d w = w\<lparr>deployments :=
     map (\<lambda>x. if dep_Namespace x = dep_Namespace d \<and> dep_Name x = dep_Name d
               then listedDeployment d else x)
       (deployments w)\<rparr>"

definition storeDaemonSet :: "DaemonSet \<Rightarrow> World \<Rightarrow> World" where
  "storeDaemonSet d w = w\<lparr>daemonSets :=
     map (\<lambda>x. if ds_Namespace x = ds_Namespace d \<and> ds_Name x = ds_Name d
               then listedDaemonSet d else x)
       (daemonSets w)\<rparr>"

definition storeCronJob :: "CronJob \<Rightarrow> World \<Rightarrow> World" where
  "storeCronJob j w = w\<lparr>cronJobs :=
     map (\<lambda>x. if job_Namespace x = job_Namespace j \<and> job_Name x = job_Name j
               then listedCronJob j else x)
       (cronJobs w)\<rparr>"

text \<open>
  One call of a per-workload function \<open>f\<close> against the server: nothing is sent when \<open>f\<close>
  returns early; otherwise the patch call is made and, unless it fails, stored.
\<close>

definition perform ::
  "Collaborators \<Rightarrow> ('a \<Rightarrow> error + 'a \<times> bool) \<Rightarrow> ('a \<Rightarrow> Call) \<Rightarrow> ('a \<Rightarrow> World \<Rightarrow> World)
     \<Rightarrow> 'a \<Rightarrow> World \<Rightarrow> error option \<times> World" where
  "perform env f patch store x w =
     (case f x of
        Inl e \<Rightarrow> (Some e, w)
      | Inr (x', sent) \<Rightarrow>
          if \<not> sent then (None, w)
          else
            let w = call (patch x') w
            in (case fails env (patch x') of
                  Some e \<Rightarrow> (Some e, w)
                | None \<Rightarrow> (None, store x' w)))"

text \<open>
  The iteration over the listed items: an error of one item is logged and the iteration
  goes on; a panic leaves it and every caller.
\<close>

fun forEach ::
  "('a \<Rightarrow> World \<Rightarrow> error option \<times> World) \<Rightarrow> 'a list \<Rightarrow> World \<Rightarrow> error option \<times> World" where
  "forEach f [] w = (None, w)"
| "forEach f (x # xs) w =
     (case f x w of
        (None, w') \<Rightarrow> forEach f xs w'
      | (Some e, w') \<Rightarrow> if is_panic e then (Some e, w') else forEach f xs w')"

definition patchOfDeployment :: "Deployment \<Rightarrow> Call" where
  "patchOfDeployment d = PatchDeployment (dep_Namespace d) (dep_Name d)"

definition patchOfDaemonSet :: "DaemonSet \<Rightarrow> Call" where
  "patchOfDaemonSet d = PatchDaemonSet (ds_Namespace d) (ds_Name d)"

definition patchOfCronJob :: "CronJob \<Rightarrow> Call" where
  "patchOfCronJob j = PatchCronJob (job_Namespace j) (job_Name j)"


section \<open>The flattener on the cluster\<close>

text \<open>The names the manager hands to \<open>NewFlattener\<close>.\<close>

definition KubecostFlattenerOmit :: "string list" where
  "KubecostFlattenerOmit = [''kubecost-turndown'', ''kube-dns'', ''kube-dns-autoscaler'']"

text \<open>
  Modelled from the spec: the flattener that the manager is written against, built by
  \<open>NewFlattener(client, omit)\<close> and offering \<open>Expand\<close>, is not among the sources under
  study. The flattener among them is built from the client alone, has no \<open>Expand\<close> and
  works on every listed item. The spec says that the aggregate operations work on
  every workload of the three kinds minus a deny-list of workload names. So the
  aggregate operations below take the list \<open>omit\<close>: their listing call, their
  iteration and their call per item are those of the flattener under study, and an
  item whose name is on the list is passed over (\<open>unlessOmitted\<close>). With the empty
  list they are the functions of the flattener under study.
\<close>

definition unlessOmitted ::
  "string list \<Rightarrow> ('a \<Rightarrow> string) \<Rightarrow> ('a \<Rightarrow> World \<Rightarrow> error option \<times> World)
     \<Rightarrow> 'a \<Rightarrow> World \<Rightarrow> error option \<times> World" where
  "unlessOmitted omit name f x w = (if name x \<in> set omit then (None, w) else f x w)"

definition FlattenDeployments ::
  "string list \<Rightarrow> Collaborators \<Rightarrow> World \<Rightarrow> error option \<times> World" where
  "FlattenDeployments omit env w =
     (let w = call ListDeployments w
      in case fails env ListDeployments of
           Some err \<Rightarrow> (Some err, w)
         | None \<Rightarrow>
             forEach
               (unlessOmitted omit dep_Name
                  (perform env FlattenDeployment patchOfDeployment storeDeployment))
               (deployments w) w)"

definition FlattenDaemonSets ::
  "string list \<Rightarrow> Collaborators \<Rightarrow> World \<Rightarrow> error option \<times> World" where
  "FlattenDaemonSets omit env w =
     (let w = call ListDaemonSets w
      in case fails env ListDaemonSets of
           Some err \<Rightarrow> (Some err, w)
         | None \<Rightarrow>
             forEach
               (unlessOmitted omit ds_Name
                  (perform env FlattenDaemonSet patchOfDaemonSet storeDaemonSet))
               (daemonSets w) w)"

definition SuspendJobs ::
  "string list \<Rightarrow> Collaborators \<Rightarrow> World \<Rightarrow> error option \<times> World" where
  "SuspendJobs omit env w =
     (let w = call ListCronJobs w
      in case fails env ListCronJobs of
           Some err \<Rightarrow> (Some err, w)
         | None \<Rightarrow>
             forEach
               (unlessOmitted omit job_Name
                  (perform env SuspendJob patchOfCronJob storeCronJob))
               (cronJobs w) w)"

definition Flatten ::
  "string list \<Rightarrow> Collaborators \<Rightarrow> World \<Rightarrow> error option \<times> World" where
  "Flatten omit env w =
     (case FlattenDeployments omit env w of
        (Some err, w) \<Rightarrow> (Some err, w)
      | (None, w) \<Rightarrow>
          (case FlattenDaemonSets omit env w of
             (Some err, w) \<Rightarrow> (Some err, w)
           | (None, w) \<Rightarrow>
               (case SuspendJobs omit env w of
                  (Some err, w) \<Rightarrow> (Some err, w)
                | (None, w) \<Rightarrow> (None, w))))"

definition ExpandDeployments ::
  "string list \<Rightarrow> Collaborators \<Rightarrow> World \<Rightarrow> error option \<times> World" where
  "ExpandDeployments omit env w =
     (let w = call ListDeployments w
      in case fails env ListDeployments of
           Some err \<Rightarrow> (Some err, w)
         | None \<Rightarrow>
             forEach
               (unlessOmitted omit dep_Name
                  (perform env ExpandDeployment patchOfDeployment storeDeployment))
               (deployments w) w)"

definition ExpandDaemonSets ::
  "string list \<Rightarrow> Collaborators \<Rightarrow> World \<Rightarrow> error option \<times> World" where
  "ExpandDaemonSets omit env w =
     (let w = call ListDaemonSets w
      in case fails env ListDaemonSets of
           Some err \<Rightarrow> (Some err, w)
         | None \<Rightarrow>
             forEach
               (unlessOmitted omit ds_Name
                  (perform env ExpandDaemonSet patchOfDaemonSet storeDaemonSet))
               (daemonSets w) w)"

definition ResumeJobs ::
  "string list \<Rightarrow> Collaborators \<Rightarrow> World \<Rightarrow> error option \<times> World" where
  "ResumeJobs omit env w =
     (let w = call ListCronJobs w
      in case fails env ListCronJobs of
           Some err \<Rightarrow> (Some err, w)
         | None \<Rightarrow>
             forEach
               (unlessOmitted omit job_Name
                  (perform env ResumeJob patchOfCronJob storeCronJob))
               (cronJobs w) w)"

text \<open>
  Modelled from the spec: the method \<open>Expand\<close>, which \<open>ScaleUpCluster\<close> calls, is not in
  the sources under study. The spec describes it as the aggregate that applies the
  per-kind expansion to every workload of the three kinds minus the deny-list, the
  mirror of \<open>Flatten\<close>.
\<close>

definition Expand ::
  "string list \<Rightarrow> Collaborators \<Rightarrow> World \<Rightarrow> error option \<times> World" where
  "Expand omit env w =
     (case ExpandDeployments omit env w of
        (Some err, w) \<Rightarrow> (Some err, w)
      | (None, w) \<Rightarrow>
          (case ExpandDaemonSets omit env w of
             (Some err, w) \<Rightarrow> (Some err, w)
           | (None, w) \<Rightarrow>
               (case ResumeJobs omit env w of
                  (Some err, w) \<Rightarrow> (Some err, w)
                | (None, w) \<Rightarrow> (None, w))))"

section \<open>The turndown manager\<close>

text \<open>
  The fields of the manager that change. A nil slice and an empty one both have length
  0, and the source reads \<open>nodePools\<close> through \<open>len\<close> and \<open>range\<close> only, so the slice is
  a list and nil is \<open>[]\<close>. \<open>autoScaling\<close> is a \<open>*bool\<close>.
\<close>

record KubernetesTurndownManager =
  currentNode :: string
  autoScaling :: "bool option"
  nodePools :: "NodePool list"

definition IsScaledDown :: "KubernetesTurndownManager \<Rightarrow> bool" where
  "IsScaledDown ktdm = (nodePools ktdm = [] \<or> length (nodePools ktdm) = 0)"

text \<open>Step 2 of \<open>ScaleDownCluster\<close>: the loop over the node pools.\<close>

fun classifyPools ::
  "NodePool list \<Rightarrow> bool \<Rightarrow> (string \<rightharpoonup> NodePool) \<Rightarrow> bool \<times> (string \<rightharpoonup> NodePool)" where
  "classifyPools [] isAutoScalingCluster pools = (isAutoScalingCluster, pools)"
| "classifyPools (np # nps) isAutoScalingCluster pools =
     classifyPools nps (if np_AutoScaling np then True else isAutoScalingCluster)
       (pools(np_Name np \<mapsto> np))"

text \<open>Step 3: the loop over the nodes. A failed drain is logged and the loop goes on.\<close>

fun drainNodes ::
  "Collaborators \<Rightarrow> string \<Rightarrow> (string \<rightharpoonup> NodePool) \<Rightarrow> Node list \<Rightarrow> string \<Rightarrow> World
     \<Rightarrow> string \<times> World" where
  "drainNodes env current pools [] currentNodePoolID w = (currentNodePoolID, w)"
| "drainNodes env current pools (n # ns) currentNodePoolID w =
     (let poolID = GetPoolID env n
      in if node_Name n = current then drainNodes env current pools ns poolID w
         else
           case pools poolID of
             None \<Rightarrow> drainNodes env current pools ns currentNodePoolID w
           | Some pool \<Rightarrow>
               if np_AutoScaling pool then drainNodes env current pools ns currentNodePoolID w
               else drainNodes env current pools ns currentNodePoolID
                      (call (Drain (node_Name n)) w))"

text \<open>Step 4: the pools to resize.\<close>

fun filterTargetPools :: "string \<Rightarrow> NodePool list \<Rightarrow> NodePool list" where
  "filterTargetPools currentNodePoolID [] = []"
| "filterTargetPools currentNodePoolID (np # nps) =
     (if np_Name np = currentNodePoolID \<or> np_AutoScaling np
      then filterTargetPools currentNodePoolID nps
      else np # filterTargetPools currentNodePoolID nps)"

text \<open>
  Both operations of the manager build their flattener with
  \<open>NewFlattener(ktdm.client, KubecostFlattenerOmit)\<close>, so the aggregate operations they call
  take that list.
\<close>

definition ScaleDownCluster ::
  "Collaborators \<Rightarrow> KubernetesTurndownManager \<Rightarrow> World
     \<Rightarrow> error option \<times> KubernetesTurndownManager \<times> World" where
  "ScaleDownCluster env ktdm w =
     (let w = call ListNodes w
      in case fails env ListNodes of
           Some err \<Rightarrow> (Some err, ktdm, w)
         | None \<Rightarrow>
             (let nodesItems = nodes w;
                  w = call GetNodePools w
              in case fails env GetNodePools of
                   Some err \<Rightarrow> (Some err, ktdm, w)
                 | None \<Rightarrow>
                     (let nodePoolsList = providerNodePools env;
                          (isAutoScalingCluster, pools) =
                            classifyPools nodePoolsList False Map.empty
                      in case (if isAutoScalingCluster
                               then Flatten KubecostFlattenerOmit env w
                               else SuspendJobs KubecostFlattenerOmit env w) of
                           (Some err, w) \<Rightarrow> (Some err, ktdm, w)
                         | (None, w) \<Rightarrow>
                             (let (currentNodePoolID, w) =
                                    drainNodes env (currentNode ktdm) pools nodesItems '''' w;
                                  targetPools =
                                    filterTargetPools currentNodePoolID nodePoolsList;
                                  ktdm = ktdm\<lparr>nodePools := targetPools\<rparr>;
                                  ktdm = ktdm\<lparr>autoScaling := Some isAutoScalingCluster\<rparr>;
                                  w = call (SetNodePoolSizes targetPools 0) w
                              in case fails env (SetNodePoolSizes targetPools 0) of
                                   Some err \<Rightarrow> (Some err, ktdm, w)
                                 | None \<Rightarrow> (None, ktdm, w)))))"

fun loadLoop ::
  "NodePool list \<Rightarrow> bool option \<Rightarrow> NodePool list \<Rightarrow> bool option \<times> NodePool list" where
  "loadLoop [] autoScalingField acc = (autoScalingField, acc)"
| "loadLoop (pool # pools) autoScalingField acc =
     (let autoscaling = np_AutoScaling pool
      in if autoscaling then loadLoop pools (Some autoscaling) acc
         else loadLoop pools autoScalingField (acc @ [pool]))"

definition loadNodePools ::
  "Collaborators \<Rightarrow> KubernetesTurndownManager \<Rightarrow> World
     \<Rightarrow> error option \<times> KubernetesTurndownManager \<times> World" where
  "loadNodePools env ktdm w =
     (let w = call GetNodePools w
      in case fails env GetNodePools of
           Some err \<Rightarrow> (Some err, ktdm, w)
         | None \<Rightarrow>
             let (autoScalingField, loaded) =
                   loadLoop (providerNodePools env) (autoScaling ktdm) []
             in (None, ktdm\<lparr>autoScaling := autoScalingField, nodePools := loaded\<rparr>, w))"

text \<open>Steps 2 and 3 of \<open>ScaleUpCluster\<close>, and the reset of the manager's fields.\<close>

definition resetAndExpand ::
  "Collaborators \<Rightarrow> KubernetesTurndownManager \<Rightarrow> World
     \<Rightarrow> error option \<times> KubernetesTurndownManager \<times> World" where
  "resetAndExpand env ktdm w =
     (let w = call (ResetNodePoolSizes (nodePools ktdm)) w
      in case fails env (ResetNodePoolSizes (nodePools ktdm)) of
           Some err \<Rightarrow> (Some err, ktdm, w)
         | None \<Rightarrow>
             (case (if autoScaling ktdm \<noteq> None \<and> autoScaling ktdm = Some True
                    then Expand KubecostFlattenerOmit env w
                    else ResumeJobs KubecostFlattenerOmit env w) of
                (Some err, w) \<Rightarrow> (Some err, ktdm, w)
              | (None, w) \<Rightarrow> (None, ktdm\<lparr>nodePools := [], autoScaling := None\<rparr>, w)))"

definition ScaleUpCluster ::
  "Collaborators \<Rightarrow> KubernetesTurndownManager \<Rightarrow> World
     \<Rightarrow> error option \<times> KubernetesTurndownManager \<times> World" where
  "ScaleUpCluster env ktdm w =
     (if length (nodePools ktdm) = 0
      then
        case loadNodePools env ktdm w of
          (Some err, ktdm, w) \<Rightarrow> (Some err, ktdm, w)
        | (None, ktdm, w) \<Rightarrow>
            if length (nodePools ktdm) = 0 then (Some NoNodePools, ktdm, w)
            else resetAndExpand env ktdm w
      else resetAndExpand env ktdm w)"

section \<open>The vocabulary of the specification\<close>

text \<open>
  The specification speaks of one workload \<open>W\<close> of three kinds and of \<open>flatten\<close> and
  \<open>expand\<close> on it. The source has one function per kind; \<open>flatten\<close> and \<open>expand\<close>
  dispatch to them the way the aggregate operations do.
\<close>

datatype Workload = DeploymentOf Deployment | DaemonSetOf DaemonSet | CronJobOf CronJob




text \<open>
  The flattenable fields: replica count, rollout max-unavailable, the eviction-safety
  annotation of the pod template, and the suspend flag. A kind that lacks a field has
  \<open>None\<close> there.
\<close>

record Flattenable =
  replicaCount :: "32 word option"
  maxUnavailable :: "IntOrString option"
  safeToEvict :: "string option"
  suspendFlag :: "bool option"



definition listed :: "Workload \<Rightarrow> Workload" where
  "listed W =
     (case W of
        DeploymentOf d \<Rightarrow> DeploymentOf (listedDeployment d)
      | DaemonSetOf ds \<Rightarrow> DaemonSetOf (listedDaemonSet ds)
      | CronJobOf j \<Rightarrow> CronJobOf (listedCronJob j))"


section \<open>Kinds of calls\<close>

fun workloadCall :: "Call \<Rightarrow> bool" where
  "workloadCall ListDeployments = True"
| "workloadCall ListDaemonSets = True"
| "workloadCall ListCronJobs = True"
| "workloadCall (PatchDeployment ns n) = True"
| "workloadCall (PatchDaemonSet ns n) = True"
| "workloadCall (PatchCronJob ns n) = True"
| "workloadCall c = False"

text \<open>The name of the workload a patch call is for.\<close>

fun patchedName :: "Call \<Rightarrow> string option" where
  "patchedName (PatchDeployment ns n) = Some n"
| "patchedName (PatchDaemonSet ns n) = Some n"
| "patchedName (PatchCronJob ns n) = Some n"
| "patchedName c = None"

fun cronJobCall :: "Call \<Rightarrow> bool" where
  "cronJobCall ListCronJobs = True"
| "cronJobCall (PatchCronJob ns n) = True"
| "cronJobCall c = False"

text \<open>The workloads of the three kinds whose name is on a list.\<close>

definition omitted ::
  "string list \<Rightarrow> World \<Rightarrow> Deployment list \<times> DaemonSet list \<times> CronJob list" where
  "omitted omit w =
     (filter (\<lambda>d. dep_Name d \<in> set omit) (deployments w),
      filter (\<lambda>d. ds_Name d \<in> set omit) (daemonSets w),
      filter (\<lambda>j. job_Name j \<in> set omit) (cronJobs w))"

text \<open>The later world has the same nodes, and its calls are the earlier ones followed by
  calls that satisfy \<open>P\<close>.\<close>

definition extends :: "(Call \<Rightarrow> bool) \<Rightarrow> World \<Rightarrow> World \<Rightarrow> bool" where
  "extends P w w' = (nodes w' = nodes w \<and> (\<exists>cs. calls w' = calls w @ cs \<and> list_all P cs))"

text \<open>The nodes that step 3 of \<open>ScaleDownCluster\<close> hands to the drainer.\<close>

definition drainable ::
  "Collaborators \<Rightarrow> string \<Rightarrow> (string \<rightharpoonup> NodePool) \<Rightarrow> Node \<Rightarrow> bool" where
  "drainable env current pools n =
     (node_Name n \<noteq> current
      \<and> (case pools (GetPoolID env n) of None \<Rightarrow> False | Some p \<Rightarrow> \<not> np_AutoScaling p))"

section \<open>Sample objects\<close>

definition percentDeployment :: Deployment where
  "percentDeployment =
     \<lparr>dep_Name = ''web'', dep_Namespace = ''default'', dep_Annotations = None,
      dep_Replicas = Some 5,
      dep_RollingUpdate = Some \<lparr>MaxUnavailable = Some (FromString ''25%''), MaxSurge = None\<rparr>,
      dep_TemplateAnnotations = None\<rparr>"

definition intDeployment :: Deployment where
  "intDeployment =
     \<lparr>dep_Name = ''worker'', dep_Namespace = ''default'', dep_Annotations = None,
      dep_Replicas = Some 4,
      dep_RollingUpdate = Some \<lparr>MaxUnavailable = Some (FromInt 3), MaxSurge = None\<rparr>,
      dep_TemplateAnnotations = None\<rparr>"

definition unsetReplicasDeployment :: Deployment where
  "unsetReplicasDeployment =
     \<lparr>dep_Name = ''web'', dep_Namespace = ''default'', dep_Annotations = None,
      dep_Replicas = None, dep_RollingUpdate = None, dep_TemplateAnnotations = None\<rparr>"

definition plainDeployment :: Deployment where
  "plainDeployment =
     \<lparr>dep_Name = ''api'', dep_Namespace = ''default'', dep_Annotations = None,
      dep_Replicas = Some 5, dep_RollingUpdate = None, dep_TemplateAnnotations = None\<rparr>"

definition flattenedDeployment :: Deployment where
  "flattenedDeployment =
     \<lparr>dep_Name = ''api'', dep_Namespace = ''default'',
      dep_Annotations = Some [KubecostTurnDownReplicas \<mapsto> ''5''],
      dep_Replicas = Some 0, dep_RollingUpdate = None, dep_TemplateAnnotations = None\<rparr>"

definition expandedDeployment :: Deployment where
  "expandedDeployment =
     \<lparr>dep_Name = ''api'', dep_Namespace = ''default'', dep_Annotations = Some Map.empty,
      dep_Replicas = Some 5, dep_RollingUpdate = None, dep_TemplateAnnotations = None\<rparr>"

definition kubeDNS :: Deployment where
  "kubeDNS =
     \<lparr>dep_Name = ''kube-dns'', dep_Namespace = ''kube-system'', dep_Annotations = None,
      dep_Replicas = Some 2, dep_RollingUpdate = None, dep_TemplateAnnotations = None\<rparr>"

definition pinnedDaemonSet :: DaemonSet where
  "pinnedDaemonSet =
     \<lparr>ds_Name = ''node-exporter'', ds_Namespace = ''monitoring'', ds_Annotations = None,
      ds_TemplateAnnotations = Some [ClusterAutoScalerSafeEvict \<mapsto> ''false'']\<rparr>"

definition plainDaemonSet :: DaemonSet where
  "plainDaemonSet =
     \<lparr>ds_Name = ''fluentd'', ds_Namespace = ''logging'', ds_Annotations = None,
      ds_TemplateAnnotations = Some [''app'' \<mapsto> ''fluentd'']\<rparr>"

definition flattenedDaemonSet :: DaemonSet where
  "flattenedDaemonSet =
     \<lparr>ds_Name = ''fluentd'', ds_Namespace = ''logging'', ds_Annotations = None,
      ds_TemplateAnnotations =
        Some [''app'' \<mapsto> ''fluentd'', ClusterAutoScalerSafeEvict \<mapsto> ''true'']\<rparr>"

definition activeJob :: CronJob where
  "activeJob = \<lparr>job_Name = ''report'', job_Namespace = ''default'', job_Annotations = None,
                job_Suspend = Some False\<rparr>"

definition capturedJob :: CronJob where
  "capturedJob = \<lparr>job_Name = ''report'', job_Namespace = ''default'',
                  job_Annotations = Some [KubecostTurnDownJobSuspend \<mapsto> ''true''],
                  job_Suspend = Some True\<rparr>"

definition resumedJob :: CronJob where
  "resumedJob = \<lparr>job_Name = ''report'', job_Namespace = ''default'',
                 job_Annotations = Some Map.empty, job_Suspend = Some True\<rparr>"

definition poolOfNode :: "Node \<Rightarrow> string" where
  "poolOfNode n = (case node_Labels n ''pool'' of None \<Rightarrow> '''' | Some p \<Rightarrow> p)"

definition anchorPool :: NodePool where
  "anchorPool = \<lparr>np_Name = ''anchor-pool'', np_AutoScaling = False\<rparr>"

definition fixedPool :: NodePool where
  "fixedPool = \<lparr>np_Name = ''fixed-pool'', np_AutoScaling = False\<rparr>"

definition autoPool :: NodePool where
  "autoPool = \<lparr>np_Name = ''auto-pool'', np_AutoScaling = True\<rparr>"

definition anchorNode :: Node where
  "anchorNode = \<lparr>node_Name = ''node-a'', node_Labels = [''pool'' \<mapsto> ''anchor-pool'']\<rparr>"

definition fixedNode :: Node where
  "fixedNode = \<lparr>node_Name = ''node-b'', node_Labels = [''pool'' \<mapsto> ''fixed-pool'']\<rparr>"

definition autoNode :: Node where
  "autoNode = \<lparr>node_Name = ''node-c'', node_Labels = [''pool'' \<mapsto> ''auto-pool'']\<rparr>"

definition sampleWorld :: World where
  "sampleWorld =
     \<lparr>deployments = [kubeDNS, plainDeployment], daemonSets = [plainDaemonSet],
      cronJobs = [activeJob],
      nodes = [anchorNode, fixedNode, autoNode], calls = []\<rparr>"

text \<open>Collaborators that never fail, over fixed-size pools only and with an autoscaling
  pool; a provider that refuses the resize; a provider with an autoscaling pool only.\<close>

definition fixedCluster :: Collaborators where
  "fixedCluster =
     \<lparr>fails = (\<lambda>c. None), providerNodePools = [anchorPool, fixedPool], GetPoolID = poolOfNode\<rparr>"

definition mixedCluster :: Collaborators where
  "mixedCluster =
     \<lparr>fails = (\<lambda>c. None), providerNodePools = [anchorPool, fixedPool, autoPool],
      GetPoolID = poolOfNode\<rparr>"

definition failingResize :: Collaborators where
  "failingResize =
     \<lparr>fails = (\<lambda>c. if c = SetNodePoolSizes [fixedPool] 0
                    then Some (ApiError ''resize refused'') else None),
      providerNodePools = [anchorPool, fixedPool], GetPoolID = poolOfNode\<rparr>"

definition autoscalingOnly :: Collaborators where
  "autoscalingOnly =
     \<lparr>fails = (\<lambda>c. None), providerNodePools = [autoPool], GetPoolID = poolOfNode\<rparr>"

definition freshManager :: KubernetesTurndownManager where
  "freshManager = \<lparr>currentNode = ''node-a'', autoScaling = None, nodePools = []\<rparr>"

section \<open>Decimal strings and booleans go through print and parse unchanged\<close>












lemma Itoa_1: "Itoa 1 = ''1''"
  by (simp add: Itoa_def formatUint.simps digitChar_def decimalDigits_def)

section \<open>Annotation maps\<close>

lemma keys_distinct:
  "KubecostTurnDownReplicas \<noteq> KubecostTurnDownRollout"
  "KubecostTurnDownRollout \<noteq> KubecostTurnDownReplicas"
  "KubecostTurnDownReplicas \<noteq> KubecostTurnDownSafeEvictFlag"
  "KubecostTurnDownSafeEvictFlag \<noteq> KubecostTurnDownReplicas"
  "KubecostTurnDownRollout \<noteq> KubecostTurnDownSafeEvictFlag"
  "KubecostTurnDownSafeEvictFlag \<noteq> KubecostTurnDownRollout"
  by (simp_all add: KubecostTurnDownReplicas_def KubecostTurnDownRollout_def
      KubecostTurnDownSafeEvictFlag_def)

lemma lookup_assign: "lookup (assign a k v) k' = (if k' = k then Some v else lookup a k')"
  by (simp add: lookup_def assign_def split: option.splits)

lemma lookup_delete: "lookup (delete a k) k' = (if k' = k then None else lookup a k')"
  by (simp add: lookup_def delete_def split: option.splits)

lemma assign_not_nil: "assign a k v \<noteq> None"
  by (simp add: assign_def split: option.splits)

lemma delete_nil_iff: "(delete a k = None) = (a = None)"
  by (simp add: delete_def split: option.splits)

lemma delete_delete: "delete (delete a k) k = delete a k"
  by (simp add: delete_def split: option.splits)

lemma index_lookup: "index a k = (case lookup a k of None \<Rightarrow> '''' | Some v \<Rightarrow> v)"
  by (simp add: index_def lookup_def split: option.splits)


lemma lookup_Some_not_nil: "lookup a k = Some v \<Longrightarrow> a \<noteq> None"
  by (cases a) (simp_all add: lookup_def)

lemma lookup_decoded: "lookup (decodedAnnotations a) k = lookup a k"
  by (cases a) (auto simp add: lookup_def decodedAnnotations_def)



lemma decoded_idem: "decodedAnnotations (decodedAnnotations a) = decodedAnnotations a"
  by (cases a) (simp_all add: decodedAnnotations_def)

lemma decoded_delete_absent:
  "lookup a k = None \<Longrightarrow> delete (decodedAnnotations a) k = decodedAnnotations a"
  by (cases a) (auto simp add: lookup_def delete_def decodedAnnotations_def)

section \<open>Properties of one deployment\<close>

text \<open>
  Claim C9. Flattening a deployment is not total: \<open>zeroOutReplicas\<close> reads through the
  replicas pointer before any check, so \<open>FlattenDeployment\<close> panics exactly when the
  replica count is nil, and returns normally exactly when it is set.
\<close>

theorem FlattenDeployment_panics_iff_replicas_nil:
  "(FlattenDeployment d = Inl NilPointerDereference) = (dep_Replicas d = None)
   \<and> ((\<exists>r. FlattenDeployment d = Inr r) = (dep_Replicas d \<noteq> None))"
  by (auto simp add: FlattenDeployment_def zeroOutReplicas_def setSafeEvict_def Let_def
      split: option.splits prod.splits sum.splits if_splits)

text \<open>A deployment without a replica count panics; one with five replicas is flattened.\<close>

theorem FlattenDeployment_panics_iff_replicas_nil_witness:
  "FlattenDeployment unsetReplicasDeployment = Inl NilPointerDereference
   \<and> (\<exists>r. FlattenDeployment percentDeployment = Inr r)"
  using FlattenDeployment_panics_iff_replicas_nil [of unsetReplicasDeployment]
    FlattenDeployment_panics_iff_replicas_nil [of percentDeployment]
  by (simp add: unsetReplicasDeployment_def percentDeployment_def)

text \<open>
  Whatever value max-unavailable had, the rollout annotation receives the text of the
  value after the overwrite: the source prints through the pointer it has just written
  through.
\<close>

lemma zeroOutRollingUpdate_writes_1:
  assumes "dep_RollingUpdate d = Some ru" "MaxUnavailable ru = Some v"
  shows "lookup (dep_Annotations (fst (zeroOutRollingUpdate d))) KubecostTurnDownRollout
           = Some ''1''"
  using assms
  by (simp add: zeroOutRollingUpdate_def Let_def IntOrString_String_def lookup_assign Itoa_1)

text \<open>
  Claim C2 says that flatten writes the prior max-unavailable value into the capture
  annotation and never the value after the mutation. The code does the opposite: for a
  deployment whose max-unavailable is the percentage 25% and for one whose
  max-unavailable is the integer 3, the annotation written is the text 1, the value
  after the overwrite, and the prior value is kept nowhere.
\<close>

theorem zeroOutRollingUpdate_captures_new_value:
  "IntOrString_String (FromString ''25%'') = ''25%''
   \<and> lookup (dep_Annotations (fst (zeroOutRollingUpdate percentDeployment)))
        KubecostTurnDownRollout = Some ''1''
   \<and> IntOrString_String (FromInt 3) = ''3''
   \<and> lookup (dep_Annotations (fst (zeroOutRollingUpdate intDeployment)))
        KubecostTurnDownRollout = Some ''1''
   \<and> map_option MaxUnavailable (dep_RollingUpdate (fst (zeroOutRollingUpdate intDeployment)))
        = Some (Some (FromInt 1))
   \<and> FlattenDeployment intDeployment =
        Inr (intDeployment\<lparr>dep_Replicas := Some 0,
               dep_RollingUpdate := Some \<lparr>MaxUnavailable = Some (FromInt 1), MaxSurge = None\<rparr>,
               dep_Annotations := Some [KubecostTurnDownReplicas \<mapsto> ''4'',
                                        KubecostTurnDownRollout \<mapsto> ''1'']\<rparr>, True)"
  by (simp add: zeroOutRollingUpdate_def percentDeployment_def intDeployment_def Let_def
      IntOrString_String_def FromString_def FromInt_def lookup_def assign_def
      FlattenDeployment_def zeroOutReplicas_def
      Itoa_def formatUint.simps digitChar_def decimalDigits_def)

section \<open>The functions on one workload, by what the annotation maps hold\<close>

lemma delete_nil: "delete None k = None"
  by (simp add: delete_def)

lemma setSafeEvict_by_lookup:
  "setSafeEvict d =
     (let d' = d\<lparr>dep_TemplateAnnotations :=
                 assign (dep_TemplateAnnotations d) ClusterAutoScalerSafeEvict ''true''\<rparr>
      in case lookup (dep_TemplateAnnotations d) ClusterAutoScalerSafeEvict of
           None \<Rightarrow> (d', True)
         | Some v \<Rightarrow>
             if v = '''' then (d', True)
             else (d'\<lparr>dep_Annotations :=
                       assign (dep_Annotations d) KubecostTurnDownSafeEvictFlag v\<rparr>, True))"
  by (cases "dep_TemplateAnnotations d")
     (simp_all add: setSafeEvict_def index_def lookup_def Let_def split: option.splits)

lemma resetSafeEvict_by_lookup:
  "resetSafeEvict d =
     (case lookup (dep_Annotations d) KubecostTurnDownSafeEvictFlag of
        None \<Rightarrow>
          if dep_Annotations d = None then (d, False)
          else (d\<lparr>dep_TemplateAnnotations :=
                   delete (dep_TemplateAnnotations d) ClusterAutoScalerSafeEvict\<rparr>, True)
      | Some v \<Rightarrow>
          (d\<lparr>dep_Annotations := delete (dep_Annotations d) KubecostTurnDownSafeEvictFlag,
             dep_TemplateAnnotations :=
               assign (dep_TemplateAnnotations d) ClusterAutoScalerSafeEvict v\<rparr>, True))"
proof (cases "dep_Annotations d")
  case None
  then show ?thesis by (simp add: resetSafeEvict_def lookup_def)
next
  case (Some m)
  show ?thesis
  proof (cases "dep_TemplateAnnotations d")
    case None
    then have "d\<lparr>dep_TemplateAnnotations := None\<rparr> = d" by simp
    with Some None show ?thesis
      by (simp add: resetSafeEvict_def lookup_def Let_def delete_nil split: option.splits)
  next
    case (Some t)
    with \<open>dep_Annotations d = Some m\<close> show ?thesis
      by (simp add: resetSafeEvict_def lookup_def Let_def split: option.splits)
  qed
qed

lemma resetReplicas_by_lookup:
  "resetReplicas d =
     (case lookup (dep_Annotations d) KubecostTurnDownReplicas of
        None \<Rightarrow> (d, False)
      | Some e \<Rightarrow>
          (case ParseInt e 32 of
             Inl err \<Rightarrow> (d, False)
           | Inr v \<Rightarrow>
               (d\<lparr>dep_Annotations := delete (dep_Annotations d) KubecostTurnDownReplicas,
                  dep_Replicas := Some (of_int v)\<rparr>, True)))"
  by (cases "dep_Annotations d")
     (simp_all add: resetReplicas_def lookup_def Let_def split: option.splits sum.splits)

lemma resetRollingUpdate_by_lookup:
  "resetRollingUpdate d =
     (case lookup (dep_Annotations d) KubecostTurnDownRollout of
        None \<Rightarrow> (d, False)
      | Some e \<Rightarrow>
          (d\<lparr>dep_Annotations := delete (dep_Annotations d) KubecostTurnDownRollout,
             dep_RollingUpdate :=
               Some (case dep_RollingUpdate d of
                       None \<Rightarrow> \<lparr>MaxUnavailable = Some (Parse e), MaxSurge = None\<rparr>
                     | Some ru \<Rightarrow> ru\<lparr>MaxUnavailable := Some (Parse e)\<rparr>)\<rparr>, True))"
  by (cases "dep_Annotations d")
     (simp_all add: resetRollingUpdate_def lookup_def Let_def split: option.splits)

lemma FlattenDaemonSet_by_lookup:
  "FlattenDaemonSet ds =
     (if lookup (ds_TemplateAnnotations ds) ClusterAutoScalerSafeEvict = Some ''true''
      then Inr (ds, False)
      else Inr (ds\<lparr>ds_TemplateAnnotations :=
                    assign (ds_TemplateAnnotations ds) ClusterAutoScalerSafeEvict ''true''\<rparr>,
                True))"
  by (cases "ds_TemplateAnnotations ds") (simp_all add: FlattenDaemonSet_def lookup_def)

lemma ResumeJob_by_lookup:
  "ResumeJob job =
     (case lookup (job_Annotations job) KubecostTurnDownJobSuspend of
        None \<Rightarrow> Inr (job\<lparr>job_Suspend := Some False\<rparr>, True)
      | Some suspendEntry \<Rightarrow>
          (case ParseBool suspendEntry of
             Inl err \<Rightarrow> Inl err
           | Inr suspend \<Rightarrow>
               Inr (job\<lparr>job_Annotations :=
                          delete (job_Annotations job) KubecostTurnDownJobSuspend,
                        job_Suspend := Some suspend\<rparr>, True)))"
  by (cases "job_Annotations job")
     (simp_all add: ResumeJob_def lookup_def Let_def split: option.splits sum.splits)

lemma zeroOutRollingUpdate_by_cases:
  "zeroOutRollingUpdate d =
     (case dep_RollingUpdate d of
        None \<Rightarrow> (d, False)
      | Some ru \<Rightarrow>
          (case MaxUnavailable ru of
             None \<Rightarrow>
               (d\<lparr>dep_RollingUpdate := Some (ru\<lparr>MaxUnavailable := Some (FromInt 1)\<rparr>),
                  dep_Annotations := assign (dep_Annotations d) KubecostTurnDownRollout ''''\<rparr>,
                True)
           | Some v \<Rightarrow>
               (d\<lparr>dep_RollingUpdate :=
                    Some (ru\<lparr>MaxUnavailable := Some (v\<lparr>Type := intstr_Int, IntVal := 1\<rparr>)\<rparr>),
                  dep_Annotations :=
                    assign (dep_Annotations d) KubecostTurnDownRollout ''1''\<rparr>,
                True)))"
  by (simp add: zeroOutRollingUpdate_def Let_def IntOrString_String_def Itoa_1
      split: option.splits)

section \<open>Flatten, then expand\<close>













section \<open>Running flatten or expand a second time\<close>

lemma delete_absent: "lookup a k = None \<Longrightarrow> delete a k = a"
  by (cases a) (auto simp add: lookup_def delete_def)

lemma FlattenDaemonSet_again:
  assumes a: "FlattenDaemonSet ds = Inr (ds1, sent)"
  shows "FlattenDaemonSet (if sent then listedDaemonSet ds1 else ds)
           = Inr (if sent then listedDaemonSet ds1 else ds, False)"
  using a
  by (auto simp add: FlattenDaemonSet_by_lookup listedDaemonSet_def lookup_decoded
      lookup_assign split: if_splits)

lemma FlattenDeployment_again:
  assumes ns: "dep_Namespace d \<noteq> ''kube-system''" and ru: "dep_RollingUpdate d = None"
    and f: "FlattenDeployment d = Inr (d1, sent)"
  shows "FlattenDeployment (if sent then listedDeployment d1 else d)
           = Inr (if sent then listedDeployment d1 else d, False)"
proof -
  from f ns ru obtain r where r: "dep_Replicas d = Some r"
    by (cases "dep_Replicas d") (simp_all add: FlattenDeployment_def zeroOutReplicas_def)
  show ?thesis
  proof (cases "r = 0")
    case True
    with f ns ru r have "d1 = d" "\<not> sent"
      by (simp_all add: FlattenDeployment_def zeroOutReplicas_def zeroOutRollingUpdate_def)
    with True ns ru r show ?thesis
      by (simp add: FlattenDeployment_def zeroOutReplicas_def zeroOutRollingUpdate_def)
  next
    case False
    with f ns ru r have "d1 = d\<lparr>dep_Replicas := Some 0, dep_Annotations :=
        assign (dep_Annotations d) KubecostTurnDownReplicas (Itoa (sint r))\<rparr>" "sent"
      by (simp_all add: FlattenDeployment_def zeroOutReplicas_def zeroOutRollingUpdate_def
          Let_def)
    with ns ru show ?thesis
      by (simp add: FlattenDeployment_def zeroOutReplicas_def zeroOutRollingUpdate_def
          listedDeployment_def)
  qed
qed

lemma ExpandDeployment_outside_kube_system:
  "dep_Namespace d \<noteq> ''kube-system'' \<Longrightarrow>
   ExpandDeployment d =
     Inr (fst (resetRollingUpdate (fst (resetReplicas d))),
          snd (resetReplicas d) \<or> snd (resetRollingUpdate (fst (resetReplicas d))))"
  by (auto simp add: ExpandDeployment_def Let_def split: prod.splits)

lemma ExpandDeployment_again:
  assumes ns: "dep_Namespace d \<noteq> ''kube-system''" and e: "ExpandDeployment d = Inr (d1, sent)"
  shows "ExpandDeployment (if sent then listedDeployment d1 else d)
           = Inr (if sent then listedDeployment d1 else d, False)"
proof (cases "lookup (dep_Annotations d) KubecostTurnDownReplicas")
  case None
  with ns e show ?thesis
    by (cases "lookup (dep_Annotations d) KubecostTurnDownRollout")
       (auto simp add: ExpandDeployment_outside_kube_system resetReplicas_by_lookup
          resetRollingUpdate_by_lookup listedDeployment_def lookup_decoded lookup_delete
          keys_distinct)
next
  case (Some entry)
  with ns e show ?thesis
    by (cases "lookup (dep_Annotations d) KubecostTurnDownRollout"; cases "ParseInt entry 32")
       (auto simp add: ExpandDeployment_outside_kube_system resetReplicas_by_lookup
          resetRollingUpdate_by_lookup listedDeployment_def lookup_decoded lookup_delete
          keys_distinct)
qed

lemma ExpandDaemonSet_again:
  assumes a: "ExpandDaemonSet ds = Inr (ds1, sent)"
  shows "ExpandDaemonSet (if sent then listedDaemonSet ds1 else ds)
           = Inr (if sent then listedDaemonSet ds1 else ds,
                  ds_TemplateAnnotations (if sent then listedDaemonSet ds1 else ds) \<noteq> None)"
proof (cases "ds_TemplateAnnotations ds = None")
  case True
  with a have "ds1 = ds" "\<not> sent" by (simp_all add: ExpandDaemonSet_def)
  with True show ?thesis by (simp add: ExpandDaemonSet_def)
next
  case False
  with a have d: "ds1 = ds\<lparr>ds_TemplateAnnotations :=
      delete (ds_TemplateAnnotations ds) ClusterAutoScalerSafeEvict\<rparr>" and s: "sent"
    by (simp_all add: ExpandDaemonSet_def)
  have "lookup (ds_TemplateAnnotations (listedDaemonSet ds1)) ClusterAutoScalerSafeEvict = None"
    by (simp add: d listedDaemonSet_def lookup_decoded lookup_delete)
  then have "delete (ds_TemplateAnnotations (listedDaemonSet ds1)) ClusterAutoScalerSafeEvict
      = ds_TemplateAnnotations (listedDaemonSet ds1)"
    by (rule delete_absent)
  with s show ?thesis
    by (simp add: ExpandDaemonSet_def)
qed

lemma ResumeJob_again:
  assumes "ResumeJob j = Inr (j1, sent)"
  shows "ResumeJob (if sent then listedCronJob j1 else j)
           = Inr ((if sent then listedCronJob j1 else j)\<lparr>job_Suspend := Some False\<rparr>, True)"
proof -
  from assms have s: "sent"
    by (auto simp add: ResumeJob_by_lookup split: option.splits sum.splits)
  have "lookup (job_Annotations j1) KubecostTurnDownJobSuspend = None"
  proof (cases "lookup (job_Annotations j) KubecostTurnDownJobSuspend")
    case None
    with assms have "j1 = j\<lparr>job_Suspend := Some False\<rparr>"
      by (simp add: ResumeJob_by_lookup)
    with None show ?thesis by simp
  next
    case (Some entry)
    from assms Some obtain b where
      "j1 = j\<lparr>job_Annotations := delete (job_Annotations j) KubecostTurnDownJobSuspend,
              job_Suspend := Some b\<rparr>"
      by (cases "ParseBool entry") (auto simp add: ResumeJob_by_lookup)
    then show ?thesis by (simp add: lookup_delete)
  qed
  with s show ?thesis
    by (simp add: ResumeJob_by_lookup listedCronJob_def lookup_decoded)
qed


text \<open>
  Claim C3, as the specification states it, fails: a second run is not always without
  a patch and without a change. Amended to what the code does by design. The second
  run is on the workload that the server holds after the first: the decoding of the
  object the first run patched, or the workload as it was when the first run sent no
  patch.
  \<^item> Flatten on an already flattened daemon set, or on an already flattened deployment
    outside \<open>kube-system\<close> that has no rolling-update strategy, sends no patch and
    changes nothing.
  \<^item> Expand on an already expanded deployment outside \<open>kube-system\<close> sends no patch and
    changes nothing.
  \<^item> Expand on an already expanded daemon set changes nothing. It sends no patch when
    the pod template is left without annotations, and sends a patch again when the
    pod template still has one.
  \<^item> Expand on an already expanded cron job finds no capture annotation, so it sends a
    patch again and sets the suspend flag to false.
  Nothing is said of a second flatten of a cron job, of a deployment in \<open>kube-system\<close>
  or of a deployment with a rolling-update strategy.
\<close>

theorem rerun_without_effect_where_guarded:
  "(FlattenDaemonSet ds = Inr (ds1, s1) \<longrightarrow>
      FlattenDaemonSet (if s1 then listedDaemonSet ds1 else ds)
        = Inr (if s1 then listedDaemonSet ds1 else ds, False))
   \<and> (dep_Namespace d \<noteq> ''kube-system'' \<and> dep_RollingUpdate d = None
        \<and> FlattenDeployment d = Inr (d1, s2) \<longrightarrow>
      FlattenDeployment (if s2 then listedDeployment d1 else d)
        = Inr (if s2 then listedDeployment d1 else d, False))
   \<and> (dep_Namespace e \<noteq> ''kube-system'' \<and> ExpandDeployment e = Inr (e1, s3) \<longrightarrow>
      ExpandDeployment (if s3 then listedDeployment e1 else e)
        = Inr (if s3 then listedDeployment e1 else e, False))
   \<and> (ExpandDaemonSet es = Inr (es1, s4) \<longrightarrow>
      ExpandDaemonSet (if s4 then listedDaemonSet es1 else es)
        = Inr (if s4 then listedDaemonSet es1 else es,
               ds_TemplateAnnotations (if s4 then listedDaemonSet es1 else es) \<noteq> None))
   \<and> (ResumeJob j = Inr (j1, s5) \<longrightarrow>
      ResumeJob (if s5 then listedCronJob j1 else j)
        = Inr ((if s5 then listedCronJob j1 else j)\<lparr>job_Suspend := Some False\<rparr>, True))"
proof (intro conjI impI)
  assume "FlattenDaemonSet ds = Inr (ds1, s1)"
  then show "FlattenDaemonSet (if s1 then listedDaemonSet ds1 else ds)
        = Inr (if s1 then listedDaemonSet ds1 else ds, False)"
    by (rule FlattenDaemonSet_again)
next
  assume "dep_Namespace d \<noteq> ''kube-system'' \<and> dep_RollingUpdate d = None
        \<and> FlattenDeployment d = Inr (d1, s2)"
  then show "FlattenDeployment (if s2 then listedDeployment d1 else d)
        = Inr (if s2 then listedDeployment d1 else d, False)"
    using FlattenDeployment_again by blast
next
  assume "dep_Namespace e \<noteq> ''kube-system'' \<and> ExpandDeployment e = Inr (e1, s3)"
  then show "ExpandDeployment (if s3 then listedDeployment e1 else e)
        = Inr (if s3 then listedDeployment e1 else e, False)"
    using ExpandDeployment_again by blast
next
  assume "ExpandDaemonSet es = Inr (es1, s4)"
  then show "ExpandDaemonSet (if s4 then listedDaemonSet es1 else es)
        = Inr (if s4 then listedDaemonSet es1 else es,
               ds_TemplateAnnotations (if s4 then listedDaemonSet es1 else es) \<noteq> None)"
    by (rule ExpandDaemonSet_again)
next
  assume "ResumeJob j = Inr (j1, s5)"
  then show "ResumeJob (if s5 then listedCronJob j1 else j)
        = Inr ((if s5 then listedCronJob j1 else j)\<lparr>job_Suspend := Some False\<rparr>, True)"
    by (rule ResumeJob_again)
qed

text \<open>A daemon set and a deployment of five replicas, each flattened and expanded once,
  and a cron job expanded once, run again as the server holds them. The daemon set
  with an annotation of its own is patched again by the second expand; the one whose
  only annotation was the eviction-safety one is not.\<close>

theorem rerun_without_effect_where_guarded_witness:
  "FlattenDaemonSet plainDaemonSet = Inr (flattenedDaemonSet, True)
   \<and> listedDaemonSet flattenedDaemonSet = flattenedDaemonSet
   \<and> FlattenDaemonSet flattenedDaemonSet = Inr (flattenedDaemonSet, False)
   \<and> dep_Namespace plainDeployment \<noteq> ''kube-system''
   \<and> dep_RollingUpdate plainDeployment = None
   \<and> FlattenDeployment plainDeployment = Inr (flattenedDeployment, True)
   \<and> listedDeployment flattenedDeployment = flattenedDeployment
   \<and> FlattenDeployment flattenedDeployment = Inr (flattenedDeployment, False)
   \<and> dep_Namespace flattenedDeployment \<noteq> ''kube-system''
   \<and> ExpandDeployment flattenedDeployment = Inr (expandedDeployment, True)
   \<and> listedDeployment expandedDeployment = plainDeployment
   \<and> ExpandDeployment plainDeployment = Inr (plainDeployment, False)
   \<and> ExpandDaemonSet flattenedDaemonSet = Inr (plainDaemonSet, True)
   \<and> listedDaemonSet plainDaemonSet = plainDaemonSet
   \<and> ExpandDaemonSet plainDaemonSet = Inr (plainDaemonSet, True)
   \<and> ExpandDaemonSet pinnedDaemonSet
       = Inr (pinnedDaemonSet\<lparr>ds_TemplateAnnotations := Some Map.empty\<rparr>, True)
   \<and> listedDaemonSet (pinnedDaemonSet\<lparr>ds_TemplateAnnotations := Some Map.empty\<rparr>)
       = pinnedDaemonSet\<lparr>ds_TemplateAnnotations := None\<rparr>
   \<and> ExpandDaemonSet (pinnedDaemonSet\<lparr>ds_TemplateAnnotations := None\<rparr>)
       = Inr (pinnedDaemonSet\<lparr>ds_TemplateAnnotations := None\<rparr>, False)
   \<and> ResumeJob capturedJob = Inr (resumedJob, True)
   \<and> listedCronJob resumedJob = resumedJob\<lparr>job_Annotations := None\<rparr>
   \<and> ResumeJob (resumedJob\<lparr>job_Annotations := None\<rparr>)
       = Inr (resumedJob\<lparr>job_Annotations := None, job_Suspend := Some False\<rparr>, True)"
proof -
  have fds: "FlattenDaemonSet plainDaemonSet = Inr (flattenedDaemonSet, True)"
    by (simp add: FlattenDaemonSet_def plainDaemonSet_def flattenedDaemonSet_def
        lookup_def assign_def ClusterAutoScalerSafeEvict_def)
  have fd: "dep_Namespace plainDeployment \<noteq> ''kube-system''"
    "dep_RollingUpdate plainDeployment = None"
    "FlattenDeployment plainDeployment = Inr (flattenedDeployment, True)"
    by (simp_all add: FlattenDeployment_def zeroOutReplicas_def zeroOutRollingUpdate_def
        plainDeployment_def flattenedDeployment_def assign_def Let_def
        Itoa_def formatUint.simps digitChar_def decimalDigits_def)
  have ed: "dep_Namespace flattenedDeployment \<noteq> ''kube-system''"
    "ExpandDeployment flattenedDeployment = Inr (expandedDeployment, True)"
    by (simp_all add: ExpandDeployment_def resetReplicas_def resetRollingUpdate_def
        flattenedDeployment_def expandedDeployment_def lookup_def delete_def Let_def
        ParseInt_def parseSigned_def parseUint_def digitVal_def decimalDigits_def
        keys_distinct)
  have eds: "ExpandDaemonSet flattenedDaemonSet = Inr (plainDaemonSet, True)"
    by (simp add: ExpandDaemonSet_def plainDaemonSet_def flattenedDaemonSet_def
        delete_def ClusterAutoScalerSafeEvict_def)
  have eps: "ExpandDaemonSet pinnedDaemonSet
       = Inr (pinnedDaemonSet\<lparr>ds_TemplateAnnotations := Some Map.empty\<rparr>, True)"
    by (simp add: ExpandDaemonSet_def pinnedDaemonSet_def delete_def)
  have rj: "ResumeJob capturedJob = Inr (resumedJob, True)"
    by (simp add: ResumeJob_def capturedJob_def resumedJob_def lookup_def delete_def
        ParseBool_def Let_def)
  have l: "listedDaemonSet flattenedDaemonSet = flattenedDaemonSet"
    "listedDeployment flattenedDeployment = flattenedDeployment"
    "listedDeployment expandedDeployment = plainDeployment"
    "listedDaemonSet plainDaemonSet = plainDaemonSet"
    "listedDaemonSet (pinnedDaemonSet\<lparr>ds_TemplateAnnotations := Some Map.empty\<rparr>)
       = pinnedDaemonSet\<lparr>ds_TemplateAnnotations := None\<rparr>"
    "listedCronJob resumedJob = resumedJob\<lparr>job_Annotations := None\<rparr>"
    by (simp_all add: listedDaemonSet_def listedDeployment_def listedCronJob_def
        decodedAnnotations_def flattenedDaemonSet_def flattenedDeployment_def
        expandedDeployment_def plainDeployment_def plainDaemonSet_def pinnedDaemonSet_def
        resumedJob_def)
  from rerun_without_effect_where_guarded
    [of plainDaemonSet flattenedDaemonSet True plainDeployment flattenedDeployment True
        flattenedDeployment expandedDeployment True flattenedDaemonSet plainDaemonSet True
        capturedJob resumedJob True]
    fds fd ed eds rj l
  have one: "FlattenDaemonSet flattenedDaemonSet = Inr (flattenedDaemonSet, False)
     \<and> FlattenDeployment flattenedDeployment = Inr (flattenedDeployment, False)
     \<and> ExpandDeployment plainDeployment = Inr (plainDeployment, False)
     \<and> ExpandDaemonSet plainDaemonSet
         = Inr (plainDaemonSet, ds_TemplateAnnotations plainDaemonSet \<noteq> None)
     \<and> ResumeJob (resumedJob\<lparr>job_Annotations := None\<rparr>)
       = Inr (resumedJob\<lparr>job_Annotations := None, job_Suspend := Some False\<rparr>, True)"
    by simp
  from rerun_without_effect_where_guarded
    [of plainDaemonSet flattenedDaemonSet True plainDeployment flattenedDeployment True
        flattenedDeployment expandedDeployment True pinnedDaemonSet
        "pinnedDaemonSet\<lparr>ds_TemplateAnnotations := Some Map.empty\<rparr>" True
        capturedJob resumedJob True]
    eps l
  have two: "ExpandDaemonSet (pinnedDaemonSet\<lparr>ds_TemplateAnnotations := None\<rparr>)
       = Inr (pinnedDaemonSet\<lparr>ds_TemplateAnnotations := None\<rparr>, False)"
    by simp
  have "ds_TemplateAnnotations plainDaemonSet \<noteq> None"
    by (simp add: plainDaemonSet_def)
  with one two fds fd ed eds eps rj l show ?thesis by simp
qed

text \<open>
  A cron job that was suspended before the turndown: the first expand restores
  \<open>suspend = true\<close> and consumes the capture annotation; expand on the expanded job,
  as the call left it and as the server holds it, sends a patch again and sets
  \<open>suspend = false\<close>. A daemon set with an annotation of its own is patched again by
  a second expand.
\<close>

theorem expand_twice_counterexample:
  "ResumeJob capturedJob = Inr (resumedJob, True)
   \<and> ResumeJob resumedJob = Inr (resumedJob\<lparr>job_Suspend := Some False\<rparr>, True)
   \<and> job_Suspend resumedJob = Some True
   \<and> resumedJob\<lparr>job_Suspend := Some False\<rparr> \<noteq> resumedJob
   \<and> ResumeJob (listedCronJob resumedJob)
       = Inr ((listedCronJob resumedJob)\<lparr>job_Suspend := Some False\<rparr>, True)
   \<and> job_Suspend (listedCronJob resumedJob) = Some True
   \<and> (listedCronJob resumedJob)\<lparr>job_Suspend := Some False\<rparr> \<noteq> listedCronJob resumedJob
   \<and> ExpandDaemonSet flattenedDaemonSet = Inr (plainDaemonSet, True)
   \<and> ExpandDaemonSet (listedDaemonSet plainDaemonSet) = Inr (listedDaemonSet plainDaemonSet, True)"
  by (simp add: ResumeJob_def capturedJob_def resumedJob_def lookup_def delete_def
      ParseBool_def Let_def listedCronJob_def decodedAnnotations_def
      ExpandDaemonSet_def plainDaemonSet_def flattenedDaemonSet_def listedDaemonSet_def
      ClusterAutoScalerSafeEvict_def)

section \<open>Calls and frames of the iterations\<close>

lemma extends_refl: "extends P w w"
  by (simp add: extends_def)

lemma extends_trans: "extends P w w1 \<Longrightarrow> extends P w1 w2 \<Longrightarrow> extends P w w2"
  by (auto simp add: extends_def)

lemma extends_call: "P c \<Longrightarrow> extends P w (call c w)"
  by (simp add: extends_def call_def)

lemma extends_mono: "extends P w w' \<Longrightarrow> (\<And>c. P c \<Longrightarrow> Q c) \<Longrightarrow> extends Q w w'"
  by (auto simp add: extends_def list_all_iff)

lemma extends_store:
  "extends P w (storeDeployment d w)" "extends P w (storeDaemonSet s w)"
  "extends P w (storeCronJob j w)"
  by (simp_all add: extends_def storeDeployment_def storeDaemonSet_def storeCronJob_def)

lemma extendsD:
  "extends P w w' \<Longrightarrow> \<exists>cs. calls w' = calls w @ cs \<and> (\<forall>c \<in> set cs. P c)"
  by (auto simp add: extends_def list_all_iff)

lemma call_fields:
  "deployments (call c w) = deployments w" "daemonSets (call c w) = daemonSets w"
  "cronJobs (call c w) = cronJobs w" "nodes (call c w) = nodes w"
  "calls (call c w) = calls w @ [c]"
  by (simp_all add: call_def)

lemma unlessOmitted_empty: "unlessOmitted [] name f = f"
  by (simp add: unlessOmitted_def fun_eq_iff)

text \<open>With nothing to pass over, an aggregate operation lists the items and calls the
  function for one workload on each of them, as the flattener without a list does.\<close>

lemma aggregates_without_list:
  "FlattenDeployments [] env w =
     (let w = call ListDeployments w
      in case fails env ListDeployments of
           Some err \<Rightarrow> (Some err, w)
         | None \<Rightarrow>
             forEach (perform env FlattenDeployment patchOfDeployment storeDeployment)
               (deployments w) w)"
  "FlattenDaemonSets [] env w =
     (let w = call ListDaemonSets w
      in case fails env ListDaemonSets of
           Some err \<Rightarrow> (Some err, w)
         | None \<Rightarrow>
             forEach (perform env FlattenDaemonSet patchOfDaemonSet storeDaemonSet)
               (daemonSets w) w)"
  "SuspendJobs [] env w =
     (let w = call ListCronJobs w
      in case fails env ListCronJobs of
           Some err \<Rightarrow> (Some err, w)
         | None \<Rightarrow>
             forEach (perform env SuspendJob patchOfCronJob storeCronJob) (cronJobs w) w)"
  "ExpandDeployments [] env w =
     (let w = call ListDeployments w
      in case fails env ListDeployments of
           Some err \<Rightarrow> (Some err, w)
         | None \<Rightarrow>
             forEach (perform env ExpandDeployment patchOfDeployment storeDeployment)
               (deployments w) w)"
  "ExpandDaemonSets [] env w =
     (let w = call ListDaemonSets w
      in case fails env ListDaemonSets of
           Some err \<Rightarrow> (Some err, w)
         | None \<Rightarrow>
             forEach (perform env ExpandDaemonSet patchOfDaemonSet storeDaemonSet)
               (daemonSets w) w)"
  "ResumeJobs [] env w =
     (let w = call ListCronJobs w
      in case fails env ListCronJobs of
           Some err \<Rightarrow> (Some err, w)
         | None \<Rightarrow>
             forEach (perform env ResumeJob patchOfCronJob storeCronJob) (cronJobs w) w)"
  unfolding FlattenDeployments_def FlattenDaemonSets_def SuspendJobs_def
    ExpandDeployments_def ExpandDaemonSets_def ResumeJobs_def unlessOmitted_empty
  by (rule refl)+

lemma perform_extends:
  assumes "\<And>x' sent. f x = Inr (x', sent) \<Longrightarrow> P (patch x')"
    and "\<And>x w. extends P w (store x w)"
  shows "extends P w (snd (perform env f patch store x w))"
proof (cases "f x")
  case (Inl e)
  then show ?thesis by (simp add: perform_def extends_refl)
next
  case (Inr r)
  obtain x' sent where r: "r = (x', sent)" by (cases r)
  show ?thesis
  proof (cases sent)
    case False
    with Inr r show ?thesis by (simp add: perform_def extends_refl)
  next
    case True
    have "P (patch x')" using Inr r by (intro assms(1)) simp
    then have "extends P w (call (patch x') w)" by (rule extends_call)
    moreover have "extends P (call (patch x') w) (store x' (call (patch x') w))"
      by (rule assms)
    ultimately show ?thesis
      using Inr r True by (auto simp add: perform_def Let_def split: option.splits
          intro: extends_trans)
  qed
qed

lemma perform_observes:
  assumes "\<And>c w. g (call c w) = g w"
    and "\<And>x' sent w. f x = Inr (x', sent) \<Longrightarrow> g (store x' w) = g w"
  shows "g (snd (perform env f patch store x w)) = g w"
proof (cases "f x")
  case (Inl e)
  then show ?thesis by (simp add: perform_def)
next
  case (Inr r)
  obtain x' sent where r: "r = (x', sent)" by (cases r)
  with Inr assms show ?thesis
    by (auto simp add: perform_def Let_def split: option.splits)
qed

lemma forEach_invariant:
  assumes "\<And>x w. I w \<Longrightarrow> I (snd (f x w))" "I w"
  shows "I (snd (forEach f xs w))"
  using assms(2)
proof (induction xs arbitrary: w)
  case Nil
  then show ?case by simp
next
  case (Cons x xs)
  obtain r w' where s: "f x w = (r, w')" by (cases "f x w")
  have "I w'" using assms(1) [OF Cons.prems, of x] s by simp
  then have "I (snd (forEach f xs w'))" by (rule Cons.IH)
  with \<open>I w'\<close> s show ?case by (cases r) simp_all
qed

text \<open>A listing and its iteration relate the world before and after by a reflexive and
  transitive relation that every call and every step respects.\<close>

lemma listing_relates:
  assumes refl: "\<And>w. R w w" and trans: "\<And>w w1 w2. R w w1 \<Longrightarrow> R w1 w2 \<Longrightarrow> R w w2"
    and listing: "\<And>w. R w (call c w)"
    and step: "\<And>x w. name x \<notin> set omit \<Longrightarrow> R w (snd (perform env f patch store x w))"
  shows "R w (snd (let w = call c w
                   in case fails env c of
                        Some err \<Rightarrow> (Some err, w)
                      | None \<Rightarrow>
                          forEach (unlessOmitted omit name (perform env f patch store))
                            (items w) w))"
proof -
  have "R (call c w) (snd (forEach (unlessOmitted omit name (perform env f patch store))
                            (items (call c w)) (call c w)))"
  proof (rule forEach_invariant [where I = "R (call c w)"])
    show "R (call c w) (call c w)" by (rule refl)
  next
    fix x w1
    assume a: "R (call c w) w1"
    have "R w1 (snd (unlessOmitted omit name (perform env f patch store) x w1))"
      using step [of x w1] refl [of w1] by (simp add: unlessOmitted_def)
    with a show "R (call c w) (snd (unlessOmitted omit name (perform env f patch store) x w1))"
      by (rule trans)
  qed
  with listing [of w] show ?thesis
    by (auto simp add: Let_def split: option.splits intro: trans)
qed

lemma chain_relates:
  assumes trans: "\<And>w w1 w2. R w w1 \<Longrightarrow> R w1 w2 \<Longrightarrow> R w w2"
    and a: "\<And>w. R w (snd (a w))" and b: "\<And>w. R w (snd (b w))" and c: "\<And>w. R w (snd (c w))"
  shows "R w (snd (case a w of
                     (Some err, w) \<Rightarrow> (Some err, w)
                   | (None, w) \<Rightarrow>
                       (case b w of
                          (Some err, w) \<Rightarrow> (Some err, w)
                        | (None, w) \<Rightarrow>
                            (case c w of
                               (Some err, w) \<Rightarrow> (Some err, w)
                             | (None, w) \<Rightarrow> (None, w)))))"
proof -
  obtain r1 w1 where 1: "a w = (r1, w1)" by (cases "a w")
  obtain r2 w2 where 2: "b w1 = (r2, w2)" by (cases "b w1")
  obtain r3 w3 where 3: "c w2 = (r3, w3)" by (cases "c w2")
  have e1: "R w w1" using a [of w] 1 by simp
  have e2: "R w1 w2" using b [of w1] 2 by simp
  have e3: "R w2 w3" using c [of w2] 3 by simp
  from e1 e2 have e12: "R w w2" by (rule trans)
  from e12 e3 have e13: "R w w3" by (rule trans)
  show ?thesis
    using 1 2 3 e1 e12 e13 by (auto split: option.splits)
qed

subsection \<open>What the functions on one workload keep\<close>

lemma FlattenDeployment_result:
  assumes "FlattenDeployment d = Inr (d', sent)"
  shows "dep_Name d' = dep_Name d" "dep_Namespace d' = dep_Namespace d"
    "dep_Replicas d' = Some 0" "\<not> sent \<Longrightarrow> d' = d"
  using assms
  by (auto simp add: FlattenDeployment_def setSafeEvict_by_lookup zeroOutReplicas_def
      zeroOutRollingUpdate_by_cases Let_def split: option.splits if_splits prod.splits)

lemma FlattenDeployment_error: "FlattenDeployment d = Inl e \<Longrightarrow> is_panic e"
  by (auto simp add: FlattenDeployment_def zeroOutReplicas_def is_panic_def Let_def
      split: option.splits if_splits prod.splits)

lemma ExpandDeployment_result:
  assumes "ExpandDeployment d = Inr (d', sent)"
  shows "dep_Name d' = dep_Name d" "dep_Namespace d' = dep_Namespace d"
  using assms
  by (auto simp add: ExpandDeployment_def resetSafeEvict_by_lookup resetReplicas_by_lookup
      resetRollingUpdate_by_lookup Let_def split: option.splits if_splits prod.splits sum.splits)

lemma FlattenDaemonSet_result:
  assumes "FlattenDaemonSet d = Inr (d', sent)"
  shows "ds_Name d' = ds_Name d" "ds_Namespace d' = ds_Namespace d"
    "lookup (ds_TemplateAnnotations d') ClusterAutoScalerSafeEvict = Some ''true''"
    "\<not> sent \<Longrightarrow> d' = d"
  using assms
  by (auto simp add: FlattenDaemonSet_by_lookup lookup_assign split: if_splits)

lemma ExpandDaemonSet_result:
  assumes "ExpandDaemonSet d = Inr (d', sent)"
  shows "ds_Name d' = ds_Name d" "ds_Namespace d' = ds_Namespace d"
  using assms
  by (auto simp add: ExpandDaemonSet_def split: if_splits)

lemma SuspendJob_result:
  assumes "SuspendJob j = Inr (j', sent)"
  shows "job_Name j' = job_Name j" "job_Namespace j' = job_Namespace j"
    "job_Suspend j' = Some True" "sent"
  using assms
  by (auto simp add: SuspendJob_def Let_def split: option.splits)

lemma SuspendJob_error: "SuspendJob j = Inl e \<Longrightarrow> is_panic e"
  by (simp add: SuspendJob_def Let_def)

lemma FlattenDaemonSet_error: "FlattenDaemonSet d = Inl e \<Longrightarrow> is_panic e"
  by (simp add: FlattenDaemonSet_by_lookup split: if_splits)

lemma ResumeJob_result:
  assumes "ResumeJob j = Inr (j', sent)"
  shows "job_Name j' = job_Name j" "job_Namespace j' = job_Namespace j"
  using assms
  by (auto simp add: ResumeJob_by_lookup split: option.splits sum.splits)

lemma listed_names:
  "dep_Name (listedDeployment d) = dep_Name d"
  "dep_Namespace (listedDeployment d) = dep_Namespace d"
  "dep_Replicas (listedDeployment d) = dep_Replicas d"
  "ds_Name (listedDaemonSet s) = ds_Name s"
  "ds_Namespace (listedDaemonSet s) = ds_Namespace s"
  "lookup (ds_TemplateAnnotations (listedDaemonSet s)) k = lookup (ds_TemplateAnnotations s) k"
  "job_Name (listedCronJob j) = job_Name j"
  "job_Namespace (listedCronJob j) = job_Namespace j"
  "job_Suspend (listedCronJob j) = job_Suspend j"
  by (simp_all add: listedDeployment_def listedDaemonSet_def listedCronJob_def lookup_decoded)


subsection \<open>The workloads on the list, and the calls\<close>

lemma filter_map_frame:
  "(\<And>x. x \<in> set xs \<Longrightarrow> (if P x then g x = x else \<not> P (g x))) \<Longrightarrow>
   filter P (map g xs) = filter P xs"
  by (induction xs) (auto split: if_splits)

lemma call_omitted: "omitted omit (call c w) = omitted omit w"
  by (simp add: omitted_def call_fields)

lemma store_omitted:
  "dep_Name d \<notin> set omit \<Longrightarrow> omitted omit (storeDeployment d w) = omitted omit w"
  "ds_Name s \<notin> set omit \<Longrightarrow> omitted omit (storeDaemonSet s w) = omitted omit w"
  "job_Name j \<notin> set omit \<Longrightarrow> omitted omit (storeCronJob j w) = omitted omit w"
  by (simp_all add: omitted_def storeDeployment_def storeDaemonSet_def storeCronJob_def
      filter_map_frame listed_names)

lemma listing_spares:
  assumes c: "workloadCall c" "patchedName c = None"
    and named: "\<And>x x' sent. f x = Inr (x', sent) \<Longrightarrow> name x' = name x"
    and patch: "\<And>x. workloadCall (patch x) \<and> patchedName (patch x) = Some (name x)"
    and store: "\<And>P x w. extends P w (store x w)"
    and kept: "\<And>x w. name x \<notin> set omit \<Longrightarrow> omitted omit (store x w) = omitted omit w"
  shows "extends (\<lambda>c. workloadCall c \<and> (\<forall>n. patchedName c = Some n \<longrightarrow> n \<notin> set omit)) w
           (snd (let w = call c w
                 in case fails env c of
                      Some err \<Rightarrow> (Some err, w)
                    | None \<Rightarrow>
                        forEach (unlessOmitted omit name (perform env f patch store))
                          (items w) w))
         \<and> omitted omit
             (snd (let w = call c w
                   in case fails env c of
                        Some err \<Rightarrow> (Some err, w)
                      | None \<Rightarrow>
                          forEach (unlessOmitted omit name (perform env f patch store))
                            (items w) w))
           = omitted omit w"
proof -
  let ?Q = "\<lambda>c. workloadCall c \<and> (\<forall>n. patchedName c = Some n \<longrightarrow> n \<notin> set omit)"
  let ?R = "\<lambda>w w'. extends ?Q w w' \<and> omitted omit w' = omitted omit w"
  have "?R w (snd (let w = call c w
                 in case fails env c of
                      Some err \<Rightarrow> (Some err, w)
                    | None \<Rightarrow>
                        forEach (unlessOmitted omit name (perform env f patch store))
                          (items w) w))"
  proof (rule listing_relates [where R = ?R])
    show "?R w w" for w by (simp add: extends_refl)
  next
    show "?R w w1 \<Longrightarrow> ?R w1 w2 \<Longrightarrow> ?R w w2" for w w1 w2
      by (auto intro: extends_trans)
  next
    show "?R w (call c w)" for w
      using c by (simp add: extends_call call_omitted)
  next
    fix x w
    assume x: "name x \<notin> set omit"
    have "extends ?Q w (snd (perform env f patch store x w))"
    proof (rule perform_extends)
      fix x' sent
      assume "f x = Inr (x', sent)"
      then have "name x' = name x" by (rule named)
      with x patch [of x'] show "?Q (patch x')" by simp
    next
      show "extends ?Q w (store x w)" for x w by (rule store)
    qed
    moreover have "omitted omit (snd (perform env f patch store x w)) = omitted omit w"
    proof (rule perform_observes [where g = "omitted omit"])
      show "omitted omit (call c w) = omitted omit w" for c w by (rule call_omitted)
    next
      fix x' sent w
      assume "f x = Inr (x', sent)"
      then have "name x' = name x" by (rule named)
      with x show "omitted omit (store x' w) = omitted omit w" by (intro kept) simp
    qed
    ultimately show "?R w (snd (perform env f patch store x w))" by simp
  qed
  then show ?thesis by simp
qed

lemma patch_names:
  "workloadCall (patchOfDeployment d) \<and> patchedName (patchOfDeployment d) = Some (dep_Name d)"
  "workloadCall (patchOfDaemonSet s) \<and> patchedName (patchOfDaemonSet s) = Some (ds_Name s)"
  "workloadCall (patchOfCronJob j) \<and> patchedName (patchOfCronJob j) = Some (job_Name j)"
  by (simp_all add: patchOfDeployment_def patchOfDaemonSet_def patchOfCronJob_def)

lemma FlattenDeployments_spares:
  "extends (\<lambda>c. workloadCall c \<and> (\<forall>n. patchedName c = Some n \<longrightarrow> n \<notin> set omit)) w
     (snd (FlattenDeployments omit env w))
   \<and> omitted omit (snd (FlattenDeployments omit env w)) = omitted omit w"
  unfolding FlattenDeployments_def
  by (rule listing_spares)
     (simp_all add: FlattenDeployment_result patch_names extends_store store_omitted)

lemma FlattenDaemonSets_spares:
  "extends (\<lambda>c. workloadCall c \<and> (\<forall>n. patchedName c = Some n \<longrightarrow> n \<notin> set omit)) w
     (snd (FlattenDaemonSets omit env w))
   \<and> omitted omit (snd (FlattenDaemonSets omit env w)) = omitted omit w"
  unfolding FlattenDaemonSets_def
  by (rule listing_spares)
     (simp_all add: FlattenDaemonSet_result patch_names extends_store store_omitted)

lemma SuspendJobs_spares:
  "extends (\<lambda>c. workloadCall c \<and> (\<forall>n. patchedName c = Some n \<longrightarrow> n \<notin> set omit)) w
     (snd (SuspendJobs omit env w))
   \<and> omitted omit (snd (SuspendJobs omit env w)) = omitted omit w"
  unfolding SuspendJobs_def
  by (rule listing_spares)
     (simp_all add: SuspendJob_result patch_names extends_store store_omitted)

lemma ExpandDeployments_spares:
  "extends (\<lambda>c. workloadCall c \<and> (\<forall>n. patchedName c = Some n \<longrightarrow> n \<notin> set omit)) w
     (snd (ExpandDeployments omit env w))
   \<and> omitted omit (snd (ExpandDeployments omit env w)) = omitted omit w"
  unfolding ExpandDeployments_def
  by (rule listing_spares)
     (simp_all add: ExpandDeployment_result patch_names extends_store store_omitted)

lemma ExpandDaemonSets_spares:
  "extends (\<lambda>c. workloadCall c \<and> (\<forall>n. patchedName c = Some n \<longrightarrow> n \<notin> set omit)) w
     (snd (ExpandDaemonSets omit env w))
   \<and> omitted omit (snd (ExpandDaemonSets omit env w)) = omitted omit w"
  unfolding ExpandDaemonSets_def
  by (rule listing_spares)
     (simp_all add: ExpandDaemonSet_result patch_names extends_store store_omitted)

lemma ResumeJobs_spares:
  "extends (\<lambda>c. workloadCall c \<and> (\<forall>n. patchedName c = Some n \<longrightarrow> n \<notin> set omit)) w
     (snd (ResumeJobs omit env w))
   \<and> omitted omit (snd (ResumeJobs omit env w)) = omitted omit w"
  unfolding ResumeJobs_def
  by (rule listing_spares)
     (simp_all add: ResumeJob_result patch_names extends_store store_omitted)

lemma Flatten_spares:
  "extends (\<lambda>c. workloadCall c \<and> (\<forall>n. patchedName c = Some n \<longrightarrow> n \<notin> set omit)) w
     (snd (Flatten omit env w))
   \<and> omitted omit (snd (Flatten omit env w)) = omitted omit w"
  unfolding Flatten_def
  by (rule chain_relates
        [where R = "\<lambda>w w'. extends (\<lambda>c. workloadCall c
                       \<and> (\<forall>n. patchedName c = Some n \<longrightarrow> n \<notin> set omit)) w w'
                     \<and> omitted omit w' = omitted omit w"])
     (auto intro: extends_trans
        simp add: FlattenDeployments_spares FlattenDaemonSets_spares SuspendJobs_spares)

lemma Expand_spares:
  "extends (\<lambda>c. workloadCall c \<and> (\<forall>n. patchedName c = Some n \<longrightarrow> n \<notin> set omit)) w
     (snd (Expand omit env w))
   \<and> omitted omit (snd (Expand omit env w)) = omitted omit w"
  unfolding Expand_def
  by (rule chain_relates
        [where R = "\<lambda>w w'. extends (\<lambda>c. workloadCall c
                       \<and> (\<forall>n. patchedName c = Some n \<longrightarrow> n \<notin> set omit)) w w'
                     \<and> omitted omit w' = omitted omit w"])
     (auto intro: extends_trans
        simp add: ExpandDeployments_spares ExpandDaemonSets_spares ResumeJobs_spares)

lemma Flatten_extends: "extends workloadCall w (snd (Flatten omit env w))"
  using Flatten_spares [of omit w env] by (auto intro: extends_mono)

lemma Expand_extends: "extends workloadCall w (snd (Expand omit env w))"
  using Expand_spares [of omit w env] by (auto intro: extends_mono)

lemma cronJobCall_workloadCall: "cronJobCall c \<Longrightarrow> workloadCall c"
  by (cases c) simp_all

text \<open>The iterations over the cron jobs make cron job calls only and keep the
  deployments and the daemon sets; the iteration over the daemon sets keeps the
  deployments.\<close>

lemma listing_cronJobs:
  "extends cronJobCall w
     (snd (let w = call ListCronJobs w
           in case fails env ListCronJobs of
                Some err \<Rightarrow> (Some err, w)
              | None \<Rightarrow>
                  forEach (unlessOmitted omit name (perform env f patchOfCronJob storeCronJob))
                    (items w) w))
   \<and> deployments
       (snd (let w = call ListCronJobs w
             in case fails env ListCronJobs of
                  Some err \<Rightarrow> (Some err, w)
                | None \<Rightarrow>
                    forEach (unlessOmitted omit name (perform env f patchOfCronJob storeCronJob))
                      (items w) w))
     = deployments w
   \<and> daemonSets
       (snd (let w = call ListCronJobs w
             in case fails env ListCronJobs of
                  Some err \<Rightarrow> (Some err, w)
                | None \<Rightarrow>
                    forEach (unlessOmitted omit name (perform env f patchOfCronJob storeCronJob))
                      (items w) w))
     = daemonSets w"
proof -
  let ?R = "\<lambda>w w'. extends cronJobCall w w' \<and> deployments w' = deployments w
              \<and> daemonSets w' = daemonSets w"
  have "?R w (snd (let w = call ListCronJobs w
           in case fails env ListCronJobs of
                Some err \<Rightarrow> (Some err, w)
              | None \<Rightarrow>
                  forEach (unlessOmitted omit name (perform env f patchOfCronJob storeCronJob))
                    (items w) w))"
  proof (rule listing_relates [where R = ?R])
    show "?R w w" for w by (simp add: extends_refl)
  next
    show "?R w w1 \<Longrightarrow> ?R w1 w2 \<Longrightarrow> ?R w w2" for w w1 w2
      by (auto intro: extends_trans)
  next
    show "?R w (call ListCronJobs w)" for w
      by (simp add: extends_call call_fields)
  next
    fix x :: CronJob and w
    have "extends cronJobCall w (snd (perform env f patchOfCronJob storeCronJob x w))"
      by (rule perform_extends) (simp_all add: patchOfCronJob_def extends_store)
    moreover have "deployments (snd (perform env f patchOfCronJob storeCronJob x w))
        = deployments w"
      by (rule perform_observes) (simp_all add: call_fields storeCronJob_def)
    moreover have "daemonSets (snd (perform env f patchOfCronJob storeCronJob x w))
        = daemonSets w"
      by (rule perform_observes) (simp_all add: call_fields storeCronJob_def)
    ultimately show "?R w (snd (perform env f patchOfCronJob storeCronJob x w))" by simp
  qed
  then show ?thesis by simp
qed

lemma SuspendJobs_frame:
  "extends cronJobCall w (snd (SuspendJobs omit env w))
   \<and> deployments (snd (SuspendJobs omit env w)) = deployments w
   \<and> daemonSets (snd (SuspendJobs omit env w)) = daemonSets w"
  unfolding SuspendJobs_def by (rule listing_cronJobs)

lemma ResumeJobs_frame:
  "extends cronJobCall w (snd (ResumeJobs omit env w))
   \<and> deployments (snd (ResumeJobs omit env w)) = deployments w
   \<and> daemonSets (snd (ResumeJobs omit env w)) = daemonSets w"
  unfolding ResumeJobs_def by (rule listing_cronJobs)

lemma FlattenDaemonSets_frame:
  "deployments (snd (FlattenDaemonSets omit env w)) = deployments w"
  unfolding FlattenDaemonSets_def
proof (rule listing_relates [where R = "\<lambda>w w'. deployments w' = deployments w"])
  fix x :: DaemonSet and w
  show "deployments (snd (perform env FlattenDaemonSet patchOfDaemonSet storeDaemonSet x w))
      = deployments w"
    by (rule perform_observes) (simp_all add: call_fields storeDaemonSet_def)
qed (simp_all add: call_fields)


subsection \<open>What a run without an error establishes\<close>

lemma forEach_establishes:
  assumes step: "\<And>x w r w1. f x w = (r, w1) \<Longrightarrow>
      (case r of
         Some e \<Rightarrow> is_panic e
       | None \<Rightarrow> \<forall>c \<in> set (items w1). Good c \<or> (c \<in> set (items w) \<and> c \<noteq> x))"
    and run: "forEach f xs w = (None, w')"
    and init: "\<forall>c \<in> set (items w). Good c \<or> c \<in> set xs"
  shows "\<forall>c \<in> set (items w'). Good c"
  using run init
proof (induction xs arbitrary: w)
  case Nil
  then show ?case by simp
next
  case (Cons x xs)
  obtain r w1 where s: "f x w = (r, w1)" by (cases "f x w")
  show ?case
  proof (cases r)
    case (Some e)
    with step [OF s] have "is_panic e" by simp
    with Cons.prems(1) s Some show ?thesis by simp
  next
    case None
    with Cons.prems(1) s have run1: "forEach f xs w1 = (None, w')" by simp
    from step [OF s] None
    have "\<forall>c \<in> set (items w1). Good c \<or> (c \<in> set (items w) \<and> c \<noteq> x)" by simp
    with Cons.prems(2) have "\<forall>c \<in> set (items w1). Good c \<or> c \<in> set xs" by auto
    with run1 show ?thesis by (rule Cons.IH)
  qed
qed

lemma FlattenDeployment_step:
  assumes nofail: "\<And>c. workloadCall c \<Longrightarrow> fails env c = None"
    and s: "unlessOmitted omit dep_Name
              (perform env FlattenDeployment patchOfDeployment storeDeployment) x w = (r, w1)"
  shows "case r of
           Some e \<Rightarrow> is_panic e
         | None \<Rightarrow> \<forall>c \<in> set (deployments w1).
                     (dep_Name c \<in> set omit \<or> dep_Replicas c = Some 0)
                     \<or> (c \<in> set (deployments w) \<and> c \<noteq> x)"
proof (cases "dep_Name x \<in> set omit")
  case True
  with s show ?thesis by (auto simp add: unlessOmitted_def)
next
  case False
  show ?thesis
  proof (cases "FlattenDeployment x")
    case (Inl e)
    with s False FlattenDeployment_error [OF Inl] show ?thesis
      by (auto simp add: unlessOmitted_def perform_def)
  next
    case (Inr p)
    obtain x' sent where p: "p = (x', sent)" by (cases p)
    note res = FlattenDeployment_result [OF Inr [unfolded p]]
    show ?thesis
    proof (cases sent)
      case notsent: False
      with res have "x' = x" by simp
      with res(3) have "dep_Replicas x = Some 0" by simp
      with s False Inr p notsent show ?thesis
        by (auto simp add: unlessOmitted_def perform_def)
    next
      case sent: True
      have "fails env (patchOfDeployment x') = None"
        by (rule nofail) (simp add: patchOfDeployment_def)
      with s False Inr p sent
      have r: "r = None" and w1: "w1 = storeDeployment x' (call (patchOfDeployment x') w)"
        by (simp_all add: unlessOmitted_def perform_def Let_def)
      show ?thesis
        unfolding r w1
        using res
        by (auto simp add: storeDeployment_def call_fields listed_names)
    qed
  qed
qed

lemma FlattenDaemonSet_step:
  assumes nofail: "\<And>c. workloadCall c \<Longrightarrow> fails env c = None"
    and s: "unlessOmitted omit ds_Name
              (perform env FlattenDaemonSet patchOfDaemonSet storeDaemonSet) x w = (r, w1)"
  shows "case r of
           Some e \<Rightarrow> is_panic e
         | None \<Rightarrow> \<forall>c \<in> set (daemonSets w1).
                     (ds_Name c \<in> set omit
                      \<or> lookup (ds_TemplateAnnotations c) ClusterAutoScalerSafeEvict
                          = Some ''true'')
                     \<or> (c \<in> set (daemonSets w) \<and> c \<noteq> x)"
proof (cases "ds_Name x \<in> set omit")
  case True
  with s show ?thesis by (auto simp add: unlessOmitted_def)
next
  case False
  show ?thesis
  proof (cases "FlattenDaemonSet x")
    case (Inl e)
    with s False FlattenDaemonSet_error [OF Inl] show ?thesis
      by (auto simp add: unlessOmitted_def perform_def)
  next
    case (Inr p)
    obtain x' sent where p: "p = (x', sent)" by (cases p)
    note res = FlattenDaemonSet_result [OF Inr [unfolded p]]
    show ?thesis
    proof (cases sent)
      case notsent: False
      with res have "x' = x" by simp
      with res(3)
      have "lookup (ds_TemplateAnnotations x) ClusterAutoScalerSafeEvict = Some ''true''"
        by simp
      with s False Inr p notsent show ?thesis
        by (auto simp add: unlessOmitted_def perform_def)
    next
      case sent: True
      have "fails env (patchOfDaemonSet x') = None"
        by (rule nofail) (simp add: patchOfDaemonSet_def)
      with s False Inr p sent
      have r: "r = None" and w1: "w1 = storeDaemonSet x' (call (patchOfDaemonSet x') w)"
        by (simp_all add: unlessOmitted_def perform_def Let_def)
      show ?thesis
        unfolding r w1
        using res
        by (auto simp add: storeDaemonSet_def call_fields listed_names)
    qed
  qed
qed

lemma SuspendJob_step:
  assumes nofail: "\<And>c. workloadCall c \<Longrightarrow> fails env c = None"
    and s: "unlessOmitted omit job_Name
              (perform env SuspendJob patchOfCronJob storeCronJob) x w = (r, w1)"
  shows "case r of
           Some e \<Rightarrow> is_panic e
         | None \<Rightarrow> \<forall>c \<in> set (cronJobs w1).
                     (job_Name c \<in> set omit \<or> job_Suspend c = Some True)
                     \<or> (c \<in> set (cronJobs w) \<and> c \<noteq> x)"
proof (cases "job_Name x \<in> set omit")
  case True
  with s show ?thesis by (auto simp add: unlessOmitted_def)
next
  case False
  show ?thesis
  proof (cases "SuspendJob x")
    case (Inl e)
    with s False SuspendJob_error [OF Inl] show ?thesis
      by (auto simp add: unlessOmitted_def perform_def)
  next
    case (Inr p)
    obtain x' sent where p: "p = (x', sent)" by (cases p)
    note res = SuspendJob_result [OF Inr [unfolded p]]
    have "fails env (patchOfCronJob x') = None"
      by (rule nofail) (simp add: patchOfCronJob_def)
    with s False Inr p res(4)
    have r: "r = None" and w1: "w1 = storeCronJob x' (call (patchOfCronJob x') w)"
      by (simp_all add: unlessOmitted_def perform_def Let_def)
    show ?thesis
      unfolding r w1
      using res
      by (auto simp add: storeCronJob_def call_fields listed_names)
  qed
qed

lemma FlattenDeployments_establishes:
  assumes nofail: "\<And>c. workloadCall c \<Longrightarrow> fails env c = None"
    and run: "FlattenDeployments omit env w = (None, w')"
  shows "\<forall>d \<in> set (deployments w'). dep_Name d \<in> set omit \<or> dep_Replicas d = Some 0"
proof -
  have "fails env ListDeployments = None" by (rule nofail) simp
  with run have "forEach (unlessOmitted omit dep_Name
          (perform env FlattenDeployment patchOfDeployment storeDeployment))
        (deployments (call ListDeployments w)) (call ListDeployments w) = (None, w')"
    by (simp add: FlattenDeployments_def Let_def)
  then show ?thesis
  proof (rule forEach_establishes [where items = deployments
        and Good = "\<lambda>d. dep_Name d \<in> set omit \<or> dep_Replicas d = Some 0", rotated])
    fix x w r w1
    assume "unlessOmitted omit dep_Name
              (perform env FlattenDeployment patchOfDeployment storeDeployment) x w = (r, w1)"
    with nofail show "case r of
           Some e \<Rightarrow> is_panic e
         | None \<Rightarrow> \<forall>c \<in> set (deployments w1).
                     (dep_Name c \<in> set omit \<or> dep_Replicas c = Some 0)
                     \<or> (c \<in> set (deployments w) \<and> c \<noteq> x)"
      by (rule FlattenDeployment_step)
  qed simp
qed

lemma FlattenDaemonSets_establishes:
  assumes nofail: "\<And>c. workloadCall c \<Longrightarrow> fails env c = None"
    and run: "FlattenDaemonSets omit env w = (None, w')"
  shows "\<forall>d \<in> set (daemonSets w'). ds_Name d \<in> set omit
           \<or> lookup (ds_TemplateAnnotations d) ClusterAutoScalerSafeEvict = Some ''true''"
proof -
  have "fails env ListDaemonSets = None" by (rule nofail) simp
  with run have "forEach (unlessOmitted omit ds_Name
          (perform env FlattenDaemonSet patchOfDaemonSet storeDaemonSet))
        (daemonSets (call ListDaemonSets w)) (call ListDaemonSets w) = (None, w')"
    by (simp add: FlattenDaemonSets_def Let_def)
  then show ?thesis
  proof (rule forEach_establishes [where items = daemonSets
        and Good = "\<lambda>d. ds_Name d \<in> set omit
           \<or> lookup (ds_TemplateAnnotations d) ClusterAutoScalerSafeEvict = Some ''true''",
        rotated])
    fix x w r w1
    assume "unlessOmitted omit ds_Name
              (perform env FlattenDaemonSet patchOfDaemonSet storeDaemonSet) x w = (r, w1)"
    with nofail show "case r of
           Some e \<Rightarrow> is_panic e
         | None \<Rightarrow> \<forall>c \<in> set (daemonSets w1).
                     (ds_Name c \<in> set omit
                      \<or> lookup (ds_TemplateAnnotations c) ClusterAutoScalerSafeEvict
                          = Some ''true'')
                     \<or> (c \<in> set (daemonSets w) \<and> c \<noteq> x)"
      by (rule FlattenDaemonSet_step)
  qed simp
qed

lemma SuspendJobs_establishes:
  assumes nofail: "\<And>c. workloadCall c \<Longrightarrow> fails env c = None"
    and run: "SuspendJobs omit env w = (None, w')"
  shows "\<forall>j \<in> set (cronJobs w'). job_Name j \<in> set omit \<or> job_Suspend j = Some True"
proof -
  have "fails env ListCronJobs = None" by (rule nofail) simp
  with run have "forEach (unlessOmitted omit job_Name
          (perform env SuspendJob patchOfCronJob storeCronJob))
        (cronJobs (call ListCronJobs w)) (call ListCronJobs w) = (None, w')"
    by (simp add: SuspendJobs_def Let_def)
  then show ?thesis
  proof (rule forEach_establishes [where items = cronJobs
        and Good = "\<lambda>j. job_Name j \<in> set omit \<or> job_Suspend j = Some True", rotated])
    fix x w r w1
    assume "unlessOmitted omit job_Name
              (perform env SuspendJob patchOfCronJob storeCronJob) x w = (r, w1)"
    with nofail show "case r of
           Some e \<Rightarrow> is_panic e
         | None \<Rightarrow> \<forall>c \<in> set (cronJobs w1).
                     (job_Name c \<in> set omit \<or> job_Suspend c = Some True)
                     \<or> (c \<in> set (cronJobs w) \<and> c \<noteq> x)"
      by (rule SuspendJob_step)
  qed simp
qed

lemma Flatten_establishes:
  assumes nofail: "\<And>c. workloadCall c \<Longrightarrow> fails env c = None"
    and run: "Flatten omit env w = (None, w')"
  shows "(\<forall>d \<in> set (deployments w'). dep_Name d \<in> set omit \<or> dep_Replicas d = Some 0)
       \<and> (\<forall>d \<in> set (daemonSets w'). ds_Name d \<in> set omit
           \<or> lookup (ds_TemplateAnnotations d) ClusterAutoScalerSafeEvict = Some ''true'')
       \<and> (\<forall>j \<in> set (cronJobs w'). job_Name j \<in> set omit \<or> job_Suspend j = Some True)"
proof -
  obtain r1 w1 where 1: "FlattenDeployments omit env w = (r1, w1)"
    by (cases "FlattenDeployments omit env w")
  obtain r2 w2 where 2: "FlattenDaemonSets omit env w1 = (r2, w2)"
    by (cases "FlattenDaemonSets omit env w1")
  from run 1 2 have r: "r1 = None" "r2 = None" and 3: "SuspendJobs omit env w2 = (None, w')"
    by (auto simp add: Flatten_def split: option.splits prod.splits)
  have d: "deployments w' = deployments w1"
    using SuspendJobs_frame [of w2 omit env] FlattenDaemonSets_frame [of omit env w1] 2 3
    by simp
  have s: "daemonSets w' = daemonSets w2"
    using SuspendJobs_frame [of w2 omit env] 3 by simp
  from FlattenDeployments_establishes [OF nofail 1 [unfolded r]]
    FlattenDaemonSets_establishes [OF nofail 2 [unfolded r]]
    SuspendJobs_establishes [OF nofail 3] d s
  show ?thesis by simp
qed

subsection \<open>The iterations of the manager\<close>

lemma classifyPools_fst:
  "fst (classifyPools nps a m) = (a \<or> (\<exists>np \<in> set nps. np_AutoScaling np))"
  by (induction nps arbitrary: a m) auto

lemma classifyPools_snd:
  "snd (classifyPools nps a m) k = Some p \<Longrightarrow>
   (p \<in> set nps \<and> np_Name p = k) \<or> m k = Some p"
proof (induction nps arbitrary: a m)
  case Nil
  then show ?case by simp
next
  case (Cons np nps)
  from Cons.prems
  have "snd (classifyPools nps (if np_AutoScaling np then True else a) (m(np_Name np \<mapsto> np))) k
          = Some p"
    by simp
  from Cons.IH [OF this] show ?case
    by (auto split: if_splits)
qed

lemma filterTargetPools_filter:
  "filterTargetPools cid nps =
     filter (\<lambda>np. \<not> (np_Name np = cid \<or> np_AutoScaling np)) nps"
  by (induction nps) auto

lemma loadLoop_result:
  "loadLoop nps a acc =
     (if \<exists>np \<in> set nps. np_AutoScaling np then Some True else a,
      acc @ filter (\<lambda>np. \<not> np_AutoScaling np) nps)"
  by (induction nps arbitrary: a acc) (auto simp add: Let_def)

lemma drainNodes_frame:
  "drainNodes env cur pools ns cid w = (cid', w') \<Longrightarrow>
   deployments w' = deployments w \<and> daemonSets w' = daemonSets w
   \<and> cronJobs w' = cronJobs w \<and> nodes w' = nodes w"
proof (induction ns arbitrary: cid w)
  case Nil
  then show ?case by simp
next
  case (Cons n ns)
  show ?case
  proof (cases "node_Name n = cur")
    case True
    with Cons.prems have "drainNodes env cur pools ns (GetPoolID env n) w = (cid', w')"
      by (simp add: Let_def)
    then show ?thesis by (rule Cons.IH)
  next
    case False
    show ?thesis
    proof (cases "pools (GetPoolID env n)")
      case None
      with False Cons.prems have "drainNodes env cur pools ns cid w = (cid', w')"
        by (simp add: Let_def)
      then show ?thesis by (rule Cons.IH)
    next
      case (Some pool)
      show ?thesis
      proof (cases "np_AutoScaling pool")
        case True
        with Some False Cons.prems have "drainNodes env cur pools ns cid w = (cid', w')"
          by (simp add: Let_def)
        then show ?thesis by (rule Cons.IH)
      next
        case nauto: False
        with Some False Cons.prems
        have "drainNodes env cur pools ns cid (call (Drain (node_Name n)) w) = (cid', w')"
          by (simp add: Let_def)
        from Cons.IH [OF this] show ?thesis by (simp add: call_fields)
      qed
    qed
  qed
qed

lemma drainNodes_calls:
  "drainNodes env cur pools ns cid w = (cid', w') \<Longrightarrow>
   calls w' = calls w @ map (\<lambda>n. Drain (node_Name n)) (filter (drainable env cur pools) ns)"
proof (induction ns arbitrary: cid w)
  case Nil
  then show ?case by simp
next
  case (Cons n ns)
  show ?case
  proof (cases "node_Name n = cur")
    case True
    with Cons.prems have "drainNodes env cur pools ns (GetPoolID env n) w = (cid', w')"
      by (simp add: Let_def)
    from Cons.IH [OF this] True show ?thesis by (simp add: drainable_def)
  next
    case False
    show ?thesis
    proof (cases "pools (GetPoolID env n)")
      case None
      with False Cons.prems have "drainNodes env cur pools ns cid w = (cid', w')"
        by (simp add: Let_def)
      from Cons.IH [OF this] None show ?thesis by (simp add: drainable_def)
    next
      case (Some pool)
      show ?thesis
      proof (cases "np_AutoScaling pool")
        case True
        with Some False Cons.prems have "drainNodes env cur pools ns cid w = (cid', w')"
          by (simp add: Let_def)
        from Cons.IH [OF this] Some True show ?thesis by (simp add: drainable_def)
      next
        case nauto: False
        with Some False Cons.prems
        have "drainNodes env cur pools ns cid (call (Drain (node_Name n)) w) = (cid', w')"
          by (simp add: Let_def)
        from Cons.IH [OF this] Some nauto False show ?thesis
          by (simp add: drainable_def call_fields)
      qed
    qed
  qed
qed

lemma drainNodes_poolID:
  "drainNodes env cur pools ns cid w = (cid', w') \<Longrightarrow>
   distinct (map node_Name ns) \<Longrightarrow> n \<in> set ns \<Longrightarrow> node_Name n = cur \<Longrightarrow>
   cid' = GetPoolID env n"
proof (induction ns arbitrary: cid w)
  case Nil
  then show ?case by simp
next
  case (Cons a ns)
  have absent: "drainNodes env cur pools ns c w1 = (cid', w') \<Longrightarrow>
                \<forall>x \<in> set ns. node_Name x \<noteq> cur \<Longrightarrow> cid' = c" for c w1
  proof (induction ns arbitrary: w1)
    case Nil
    then show ?case by simp
  next
    case (Cons b bs)
    then show ?case
      by (auto simp add: Let_def split: option.splits if_splits)
  qed
  show ?case
  proof (cases "n = a")
    case True
    with Cons.prems have step: "drainNodes env cur pools ns (GetPoolID env n) w = (cid', w')"
      by (simp add: Let_def)
    from Cons.prems(2) have "node_Name a \<notin> node_Name ` set ns" by simp
    with Cons.prems(4) True have "\<forall>x \<in> set ns. node_Name x \<noteq> cur"
      by (metis imageI)
    with step show ?thesis by (rule absent)
  next
    case False
    with Cons.prems have inns: "n \<in> set ns" by simp
    with Cons.prems have "node_Name a \<noteq> cur" by force
    with Cons.prems obtain c w1 where "drainNodes env cur pools ns c w1 = (cid', w')"
      by (auto simp add: Let_def split: option.splits if_splits)
    moreover from Cons.prems have "distinct (map node_Name ns)" by simp
    ultimately show ?thesis using inns Cons.prems(4) by (rule Cons.IH)
  qed
qed

section \<open>The runs of the turndown manager\<close>

lemma ScaleDownCluster_cases:
  fixes env k w
  assumes run: "ScaleDownCluster env k w = (r, k', w')"
    and w2_def: "w2 = call GetNodePools (call ListNodes w)"
    and isAuto_def: "isAuto = (\<exists>np \<in> set (providerNodePools env). np_AutoScaling np)"
    and pools_def: "pools = snd (classifyPools (providerNodePools env) False Map.empty)"
  obtains
    (ListFailed) e where "fails env ListNodes = Some e" "r = Some e" "k' = k"
      "w' = call ListNodes w"
  | (PoolsFailed) e where "fails env ListNodes = None" "fails env GetNodePools = Some e"
      "r = Some e" "k' = k" "w' = w2"
  | (FlattenFailed) e where "fails env ListNodes = None" "fails env GetNodePools = None"
      "(if isAuto then Flatten KubecostFlattenerOmit env w2
        else SuspendJobs KubecostFlattenerOmit env w2) = (Some e, w')"
      "r = Some e" "k' = k"
  | (Resized) w3 cid w4 where "fails env ListNodes = None" "fails env GetNodePools = None"
      "(if isAuto then Flatten KubecostFlattenerOmit env w2
        else SuspendJobs KubecostFlattenerOmit env w2) = (None, w3)"
      "drainNodes env (currentNode k) pools (nodes w) [] w3 = (cid, w4)"
      "k' = k\<lparr>nodePools := filterTargetPools cid (providerNodePools env),
                autoScaling := Some isAuto\<rparr>"
      "w' = call (SetNodePoolSizes (filterTargetPools cid (providerNodePools env)) 0) w4"
      "r = fails env (SetNodePoolSizes (filterTargetPools cid (providerNodePools env)) 0)"
proof -
  obtain a m where cp: "classifyPools (providerNodePools env) False Map.empty = (a, m)"
    by (cases "classifyPools (providerNodePools env) False Map.empty")
  have a: "a = isAuto"
    using classifyPools_fst [of "providerNodePools env" False Map.empty] cp
    by (simp add: isAuto_def)
  have m: "m = pools" using cp by (simp add: pools_def)
  show thesis
  proof (cases "fails env ListNodes")
    case (Some e)
    with run have "r = Some e" "k' = k" "w' = call ListNodes w"
      by (simp_all add: ScaleDownCluster_def Let_def)
    with Some show thesis by (rule ListFailed)
  next
    case ln: None
    show thesis
    proof (cases "fails env GetNodePools")
      case (Some e)
      with run ln have "r = Some e" "k' = k" "w' = w2"
        by (simp_all add: ScaleDownCluster_def Let_def w2_def)
      with ln Some show thesis by (rule PoolsFailed)
    next
      case gp: None
      obtain r3 w3 where
        st: "(if isAuto then Flatten KubecostFlattenerOmit env w2
             else SuspendJobs KubecostFlattenerOmit env w2) = (r3, w3)"
        by (cases "if isAuto then Flatten KubecostFlattenerOmit env w2
                   else SuspendJobs KubecostFlattenerOmit env w2")
      from st a have
        st': "(if a then Flatten KubecostFlattenerOmit env (call GetNodePools (call ListNodes w))
              else SuspendJobs KubecostFlattenerOmit env (call GetNodePools (call ListNodes w)))
                = (r3, w3)"
        unfolding w2_def by simp
      show thesis
      proof (cases r3)
        case (Some e)
        with run ln gp st' cp have "r = Some e" "k' = k" "w' = w3"
          by (simp_all add: ScaleDownCluster_def Let_def)
        with ln gp st Some show thesis by (intro FlattenFailed) simp_all
      next
        case None
        obtain cid w4 where dr: "drainNodes env (currentNode k) pools (nodes w) [] w3 = (cid, w4)"
          by (cases "drainNodes env (currentNode k) pools (nodes w) [] w3")
        from dr m have dr': "drainNodes env (currentNode k) m (nodes w) [] w3 = (cid, w4)"
          by simp
        have nw: "nodes (call ListNodes w) = nodes w" by (simp add: call_fields)
        have "r = fails env (SetNodePoolSizes (filterTargetPools cid (providerNodePools env)) 0)
            \<and> k' = k\<lparr>nodePools := filterTargetPools cid (providerNodePools env),
                      autoScaling := Some a\<rparr>
            \<and> w' = call (SetNodePoolSizes (filterTargetPools cid (providerNodePools env)) 0) w4"
          using run ln gp st' cp None dr' nw
          by (cases "fails env (SetNodePoolSizes (filterTargetPools cid (providerNodePools env)) 0)")
             (simp_all add: ScaleDownCluster_def Let_def)
        with ln gp st None dr a show thesis by (intro Resized) simp_all
      qed
    qed
  qed
qed

lemma flattenStep_extends:
  "extends workloadCall w (snd (if a then Flatten omit env w else SuspendJobs omit env w))"
  using Flatten_extends [of w omit env] SuspendJobs_frame [of w omit env]
    cronJobCall_workloadCall
  by (auto intro: extends_mono)

lemma flattenStep_nodes:
  "(if a then Flatten omit env w else SuspendJobs omit env w) = (r, w') \<Longrightarrow> nodes w' = nodes w"
  using flattenStep_extends [of w a omit env] by (simp add: extends_def)

text \<open>The calls of a whole run of \<open>ScaleDownCluster\<close>.\<close>

lemma ScaleDownCluster_calls:
  assumes run: "ScaleDownCluster env k w = (r, k', w')"
    and pools_def: "pools = snd (classifyPools (providerNodePools env) False Map.empty)"
  shows "\<exists>cs. (\<forall>c \<in> set cs. workloadCall c)
           \<and> ((k' = k \<and> r \<noteq> None
                 \<and> (calls w' = calls w @ [ListNodes]
                      \<or> calls w' = calls w @ [ListNodes, GetNodePools] @ cs))
               \<or> (\<exists>cid w3 w4.
                    drainNodes env (currentNode k) pools (nodes w) [] w3 = (cid, w4)
                    \<and> nodePools k' = filterTargetPools cid (providerNodePools env)
                    \<and> autoScaling k' = Some (\<exists>np \<in> set (providerNodePools env). np_AutoScaling np)
                    \<and> r = fails env (SetNodePoolSizes (nodePools k') 0)
                    \<and> calls w' = calls w @ [ListNodes, GetNodePools] @ cs
                         @ map (\<lambda>n. Drain (node_Name n))
                             (filter (drainable env (currentNode k) pools) (nodes w))
                         @ [SetNodePoolSizes (nodePools k') 0]))"
  using run refl [of "call GetNodePools (call ListNodes w)"]
    refl [of "\<exists>np \<in> set (providerNodePools env). np_AutoScaling np"] pools_def
proof (cases rule: ScaleDownCluster_cases)
  case (ListFailed e)
  then show ?thesis by (intro exI [of _ "[]"]) (simp add: call_fields)
next
  case (PoolsFailed e)
  then show ?thesis by (intro exI [of _ "[]"]) (simp add: call_fields)
next
  case (FlattenFailed e)
  obtain cs where cs: "calls w' = calls (call GetNodePools (call ListNodes w)) @ cs"
      "\<forall>c \<in> set cs. workloadCall c"
    using extendsD [OF flattenStep_extends
        [of "call GetNodePools (call ListNodes w)"
            "\<exists>np \<in> set (providerNodePools env). np_AutoScaling np"
            KubecostFlattenerOmit env]] FlattenFailed(3)
    by auto
  with FlattenFailed show ?thesis by (intro exI [of _ cs]) (simp add: call_fields)
next
  case (Resized w3 cid w4)
  obtain cs where cs: "calls w3 = calls (call GetNodePools (call ListNodes w)) @ cs"
      "\<forall>c \<in> set cs. workloadCall c"
    using extendsD [OF flattenStep_extends
        [of "call GetNodePools (call ListNodes w)"
            "\<exists>np \<in> set (providerNodePools env). np_AutoScaling np"
            KubecostFlattenerOmit env]] Resized(3)
    by auto
  have "calls w4 = calls w3 @ map (\<lambda>n. Drain (node_Name n))
                     (filter (drainable env (currentNode k) pools) (nodes w))"
    using Resized(4) by (rule drainNodes_calls)
  with cs Resized show ?thesis
    by (intro exI [of _ cs]) (auto simp add: call_fields)
qed

lemma workloadCall_not_Drain: "workloadCall c \<Longrightarrow> c \<noteq> Drain n"
  by (cases c) simp_all

lemma workloadCall_not_Set: "workloadCall c \<Longrightarrow> c \<noteq> SetNodePoolSizes ps z"
  by (cases c) simp_all

lemma resetAndExpand_calls:
  "\<exists>r k2 w3 cs. resetAndExpand env k w = (r, k2, w3)
     \<and> calls w3 = calls w @ ResetNodePoolSizes (nodePools k) # cs
     \<and> (\<forall>c \<in> set cs. workloadCall c)
     \<and> (fails env (ResetNodePoolSizes (nodePools k)) = None \<longrightarrow>
          w3 = snd ((if autoScaling k = Some True then Expand else ResumeJobs)
                      KubecostFlattenerOmit env
                      (call (ResetNodePoolSizes (nodePools k)) w)))"
proof (cases "fails env (ResetNodePoolSizes (nodePools k))")
  case (Some e)
  then show ?thesis by (simp add: resetAndExpand_def Let_def call_fields)
next
  case None
  let ?w1 = "call (ResetNodePoolSizes (nodePools k)) w"
  let ?step = "(if autoScaling k = Some True then Expand else ResumeJobs)
                 KubecostFlattenerOmit env ?w1"
  have "extends workloadCall ?w1 (snd ?step)"
    using Expand_extends [of ?w1 KubecostFlattenerOmit env]
      ResumeJobs_frame [of ?w1 KubecostFlattenerOmit env] cronJobCall_workloadCall
    by (auto intro: extends_mono)
  then obtain cs where cs: "calls (snd ?step) = calls ?w1 @ cs" "\<forall>c \<in> set cs. workloadCall c"
    using extendsD by blast
  obtain r3 w3 where st: "?step = (r3, w3)" by (cases ?step)
  with cs None show ?thesis
    by (cases r3) (auto simp add: resetAndExpand_def Let_def call_fields)
qed

section \<open>Runs on the sample cluster\<close>

lemmas sample_defs = sampleWorld_def fixedCluster_def mixedCluster_def failingResize_def
  autoscalingOnly_def freshManager_def kubeDNS_def plainDeployment_def anchorNode_def
  fixedNode_def autoNode_def anchorPool_def fixedPool_def autoPool_def poolOfNode_def
  plainDaemonSet_def activeJob_def

lemmas run_defs = ScaleDownCluster_def Flatten_def FlattenDeployments_def FlattenDaemonSets_def
  SuspendJobs_def unlessOmitted_def KubecostFlattenerOmit_def perform_def call_def
  storeDeployment_def storeDaemonSet_def storeCronJob_def
  listedDeployment_def listedDaemonSet_def listedCronJob_def decodedAnnotations_def
  patchOfDeployment_def patchOfDaemonSet_def patchOfCronJob_def FlattenDeployment_def
  FlattenDaemonSet_def SuspendJob_def setSafeEvict_def zeroOutReplicas_def
  zeroOutRollingUpdate_def Let_def is_panic_def

lemmas eval_defs = run_defs sample_defs assign_def index_def lookup_def delete_def
  Sprintf_t_def



lemma IsScaledDown_iff_nothing_recorded: "IsScaledDown ktdm = (nodePools ktdm = [])"
  by (simp add: IsScaledDown_def)

text \<open>
  Claim C4 says that \<open>IsScaledDown\<close> is true exactly when the recorded set of target
  pools is not empty, and true after a successful \<open>ScaleDownCluster\<close> that found a
  fixed-size pool without the anchor node. The code returns the opposite: true for a
  manager that has recorded nothing, and false after a successful \<open>ScaleDownCluster\<close>
  that recorded the pool \<open>fixed-pool\<close>.
\<close>

theorem IsScaledDown_false_after_scale_down:
  "IsScaledDown freshManager
   \<and> fst (ScaleDownCluster fixedCluster freshManager sampleWorld) = None
   \<and> nodePools (fst (snd (ScaleDownCluster fixedCluster freshManager sampleWorld))) = [fixedPool]
   \<and> \<not> IsScaledDown (fst (snd (ScaleDownCluster fixedCluster freshManager sampleWorld)))"
  by (simp add: IsScaledDown_def eval_defs)

text \<open>
  Claim C6. When the nodes and the node pools can be listed, \<open>ScaleDownCluster\<close> treats
  the cluster as autoscaling exactly when some node pool autoscales, and records that
  on success. In an autoscaling cluster the workloads end as \<open>Flatten\<close> (deployments,
  daemon sets, cron jobs) leaves them and no later call touches a workload; when
  \<open>Flatten\<close> returns no error and no call for a workload fails, every deployment has
  zero replicas, the pod template of every daemon set is marked safe to evict and
  every cron job is suspended, those passed over by name apart. Otherwise the cron
  jobs end as \<open>SuspendJobs\<close> leaves them, suspended under the same conditions, the
  deployments and daemon sets are unchanged, and every workload call of the run is a
  cron job call.
\<close>

theorem ScaleDownCluster_flattens_iff_autoscaling:
  assumes run: "ScaleDownCluster env k w = (r, k', w')"
    and listed: "fails env ListNodes = None" "fails env GetNodePools = None"
  shows "((\<exists>np \<in> set (providerNodePools env). np_AutoScaling np) \<longrightarrow>
            (\<exists>r1 w1 cs. Flatten KubecostFlattenerOmit env (call GetNodePools (call ListNodes w))
                 = (r1, w1)
               \<and> calls w' = calls w1 @ cs \<and> (\<forall>c \<in> set cs. \<not> workloadCall c)
               \<and> deployments w' = deployments w1 \<and> daemonSets w' = daemonSets w1
               \<and> cronJobs w' = cronJobs w1
               \<and> (r1 = None \<and> (\<forall>c. workloadCall c \<longrightarrow> fails env c = None) \<longrightarrow>
                    (\<forall>d \<in> set (deployments w').
                        dep_Name d \<in> set KubecostFlattenerOmit \<or> dep_Replicas d = Some 0)
                    \<and> (\<forall>s \<in> set (daemonSets w').
                        ds_Name s \<in> set KubecostFlattenerOmit
                        \<or> lookup (ds_TemplateAnnotations s) ClusterAutoScalerSafeEvict
                            = Some ''true'')
                    \<and> (\<forall>j \<in> set (cronJobs w').
                        job_Name j \<in> set KubecostFlattenerOmit
                        \<or> job_Suspend j = Some True))))
       \<and> (\<not> (\<exists>np \<in> set (providerNodePools env). np_AutoScaling np) \<longrightarrow>
            (\<exists>r1 w1 cs. SuspendJobs KubecostFlattenerOmit env
                           (call GetNodePools (call ListNodes w)) = (r1, w1)
               \<and> calls w' = calls w1 @ cs \<and> (\<forall>c \<in> set cs. \<not> workloadCall c)
               \<and> cronJobs w' = cronJobs w1
               \<and> (r1 = None \<and> (\<forall>c. workloadCall c \<longrightarrow> fails env c = None) \<longrightarrow>
                    (\<forall>j \<in> set (cronJobs w').
                        job_Name j \<in> set KubecostFlattenerOmit
                        \<or> job_Suspend j = Some True)))
            \<and> deployments w' = deployments w \<and> daemonSets w' = daemonSets w
            \<and> (\<exists>cs. calls w' = calls w @ cs \<and> (\<forall>c \<in> set cs. workloadCall c \<longrightarrow> cronJobCall c)))
       \<and> (r = None \<longrightarrow>
            autoScaling k' = Some (\<exists>np \<in> set (providerNodePools env). np_AutoScaling np))"
proof -
  let ?w2 = "call GetNodePools (call ListNodes w)"
  let ?auto = "\<exists>np \<in> set (providerNodePools env). np_AutoScaling np"
  let ?pools = "snd (classifyPools (providerNodePools env) False Map.empty)"
  let ?omit = KubecostFlattenerOmit
  obtain r1 w1 where
    st: "(if ?auto then Flatten ?omit env ?w2 else SuspendJobs ?omit env ?w2) = (r1, w1)"
    by (cases "if ?auto then Flatten ?omit env ?w2 else SuspendJobs ?omit env ?w2")
  have tail: "\<exists>cs. calls w' = calls w1 @ cs \<and> (\<forall>c \<in> set cs. \<not> workloadCall c)
      \<and> deployments w' = deployments w1 \<and> daemonSets w' = daemonSets w1
      \<and> cronJobs w' = cronJobs w1
      \<and> (r = None \<longrightarrow> autoScaling k' = Some ?auto)"
    using run refl [of ?w2] refl [of ?auto] refl [of ?pools]
  proof (cases rule: ScaleDownCluster_cases)
    case (ListFailed e)
    with listed show ?thesis by simp
  next
    case (PoolsFailed e)
    with listed show ?thesis by simp
  next
    case (FlattenFailed e)
    with st show ?thesis by auto
  next
    case (Resized w3 cid w4)
    from Resized(3) st have w3: "w3 = w1" by simp
    from Resized(4) have "calls w4 = calls w3 @ map (\<lambda>n. Drain (node_Name n))
        (filter (drainable env (currentNode k) ?pools) (nodes w))"
      by (rule drainNodes_calls)
    moreover from Resized(4) have "deployments w4 = deployments w3 \<and> daemonSets w4 = daemonSets w3
        \<and> cronJobs w4 = cronJobs w3 \<and> nodes w4 = nodes w3"
      by (rule drainNodes_frame)
    ultimately show ?thesis
      using Resized(5,6) w3 by (auto simp add: call_fields)
  qed
  have jobs_only: "deployments w1 = deployments w \<and> daemonSets w1 = daemonSets w
      \<and> (\<exists>cs. calls w1 = calls w @ [ListNodes, GetNodePools] @ cs \<and> (\<forall>c \<in> set cs. cronJobCall c))"
    if "\<not> ?auto"
  proof -
    from that st have s: "SuspendJobs ?omit env ?w2 = (r1, w1)" by simp
    from SuspendJobs_frame [of ?w2 ?omit env] s
    have "deployments w1 = deployments w \<and> daemonSets w1 = daemonSets w"
      and e: "extends cronJobCall ?w2 w1"
      by (simp_all add: call_fields)
    moreover from extendsD [OF e]
    have "\<exists>cs. calls w1 = calls w @ [ListNodes, GetNodePools] @ cs \<and> (\<forall>c \<in> set cs. cronJobCall c)"
      by (simp add: call_fields)
    ultimately show ?thesis by simp
  qed
  have flattened: "(\<forall>d \<in> set (deployments w').
                        dep_Name d \<in> set ?omit \<or> dep_Replicas d = Some 0)
                    \<and> (\<forall>s \<in> set (daemonSets w').
                        ds_Name s \<in> set ?omit
                        \<or> lookup (ds_TemplateAnnotations s) ClusterAutoScalerSafeEvict
                            = Some ''true'')
                    \<and> (\<forall>j \<in> set (cronJobs w').
                        job_Name j \<in> set ?omit \<or> job_Suspend j = Some True)"
    if "?auto" "r1 = None \<and> (\<forall>c. workloadCall c \<longrightarrow> fails env c = None)"
  proof -
    from that(2) have nofail: "\<And>c. workloadCall c \<Longrightarrow> fails env c = None" by blast
    from that st have "Flatten ?omit env ?w2 = (None, w1)" by simp
    from Flatten_establishes [OF nofail this] tail show ?thesis by auto
  qed
  have suspended: "\<forall>j \<in> set (cronJobs w').
                        job_Name j \<in> set ?omit \<or> job_Suspend j = Some True"
    if "\<not> ?auto" "r1 = None \<and> (\<forall>c. workloadCall c \<longrightarrow> fails env c = None)"
  proof -
    from that(2) have nofail: "\<And>c. workloadCall c \<Longrightarrow> fails env c = None" by blast
    from that st have "SuspendJobs ?omit env ?w2 = (None, w1)" by simp
    from SuspendJobs_establishes [OF nofail this] tail show ?thesis by auto
  qed
  show ?thesis
  proof (intro conjI impI)
    assume a: ?auto
    with st have "Flatten ?omit env ?w2 = (r1, w1)" by simp
    with tail flattened [OF a]
    show "\<exists>r1 w1 cs. Flatten ?omit env ?w2 = (r1, w1)
               \<and> calls w' = calls w1 @ cs \<and> (\<forall>c \<in> set cs. \<not> workloadCall c)
               \<and> deployments w' = deployments w1 \<and> daemonSets w' = daemonSets w1
               \<and> cronJobs w' = cronJobs w1
               \<and> (r1 = None \<and> (\<forall>c. workloadCall c \<longrightarrow> fails env c = None) \<longrightarrow>
                    (\<forall>d \<in> set (deployments w').
                        dep_Name d \<in> set ?omit \<or> dep_Replicas d = Some 0)
                    \<and> (\<forall>s \<in> set (daemonSets w').
                        ds_Name s \<in> set ?omit
                        \<or> lookup (ds_TemplateAnnotations s) ClusterAutoScalerSafeEvict
                            = Some ''true'')
                    \<and> (\<forall>j \<in> set (cronJobs w').
                        job_Name j \<in> set ?omit \<or> job_Suspend j = Some True))"
      by blast
  next
    assume a: "\<not> ?auto"
    with st have "SuspendJobs ?omit env ?w2 = (r1, w1)" by simp
    with tail suspended [OF a]
    show "\<exists>r1 w1 cs. SuspendJobs ?omit env ?w2 = (r1, w1)
               \<and> calls w' = calls w1 @ cs \<and> (\<forall>c \<in> set cs. \<not> workloadCall c)
               \<and> cronJobs w' = cronJobs w1
               \<and> (r1 = None \<and> (\<forall>c. workloadCall c \<longrightarrow> fails env c = None) \<longrightarrow>
                    (\<forall>j \<in> set (cronJobs w').
                        job_Name j \<in> set ?omit \<or> job_Suspend j = Some True))"
      by blast
  next
    assume a: "\<not> ?auto"
    from tail jobs_only [OF a] show "deployments w' = deployments w" by auto
  next
    assume a: "\<not> ?auto"
    from tail jobs_only [OF a] show "daemonSets w' = daemonSets w" by auto
  next
    assume a: "\<not> ?auto"
    from tail obtain cs where cs: "calls w' = calls w1 @ cs" "\<forall>c \<in> set cs. \<not> workloadCall c"
      by blast
    from jobs_only [OF a] obtain cs1 where
      cs1: "calls w1 = calls w @ [ListNodes, GetNodePools] @ cs1" "\<forall>c \<in> set cs1. cronJobCall c"
      by blast
    have "calls w' = calls w @ ([ListNodes, GetNodePools] @ cs1 @ cs)"
      using cs cs1 by simp
    moreover have "\<forall>c \<in> set ([ListNodes, GetNodePools] @ cs1 @ cs). workloadCall c \<longrightarrow> cronJobCall c"
      using cs cs1 by auto
    ultimately show "\<exists>cs. calls w' = calls w @ cs \<and> (\<forall>c \<in> set cs. workloadCall c \<longrightarrow> cronJobCall c)"
      by blast
  next
    assume "r = None"
    with tail show "autoScaling k' = Some ?auto" by blast
  qed
qed

text \<open>The sample cluster with fixed-size pools only, and with an autoscaling pool added.
  In the first the cron job is suspended and the deployments and the daemon set are
  as they were. In the second the deployment \<open>api\<close> has no replicas, the daemon set is
  marked and the cron job is suspended; \<open>kube-dns\<close> is passed over.\<close>

theorem ScaleDownCluster_flattens_iff_autoscaling_witness:
  "fails fixedCluster ListNodes = None \<and> fails fixedCluster GetNodePools = None
   \<and> \<not> (\<exists>np \<in> set (providerNodePools fixedCluster). np_AutoScaling np)
   \<and> deployments (snd (snd (ScaleDownCluster fixedCluster freshManager sampleWorld)))
       = deployments sampleWorld
   \<and> daemonSets (snd (snd (ScaleDownCluster fixedCluster freshManager sampleWorld)))
       = daemonSets sampleWorld
   \<and> map job_Suspend (cronJobs sampleWorld) = [Some False]
   \<and> map job_Suspend
       (cronJobs (snd (snd (ScaleDownCluster fixedCluster freshManager sampleWorld))))
       = [Some True]
   \<and> autoScaling (fst (snd (ScaleDownCluster fixedCluster freshManager sampleWorld))) = Some False
   \<and> fails mixedCluster ListNodes = None \<and> fails mixedCluster GetNodePools = None
   \<and> (\<exists>np \<in> set (providerNodePools mixedCluster). np_AutoScaling np)
   \<and> autoScaling (fst (snd (ScaleDownCluster mixedCluster freshManager sampleWorld))) = Some True
   \<and> map dep_Name
       (deployments (snd (snd (ScaleDownCluster mixedCluster freshManager sampleWorld))))
       = [''kube-dns'', ''api'']
   \<and> map dep_Replicas
       (deployments (snd (snd (ScaleDownCluster mixedCluster freshManager sampleWorld))))
       = [Some 2, Some 0]
   \<and> map (\<lambda>s. lookup (ds_TemplateAnnotations s) ClusterAutoScalerSafeEvict)
       (daemonSets (snd (snd (ScaleDownCluster mixedCluster freshManager sampleWorld))))
       = [Some ''true'']
   \<and> map job_Suspend
       (cronJobs (snd (snd (ScaleDownCluster mixedCluster freshManager sampleWorld))))
       = [Some True]"
proof -
  let ?f = "ScaleDownCluster fixedCluster freshManager sampleWorld"
  let ?m = "ScaleDownCluster mixedCluster freshManager sampleWorld"
  let ?w2 = "call GetNodePools (call ListNodes sampleWorld)"
  have fl: "fails fixedCluster ListNodes = None" "fails fixedCluster GetNodePools = None"
    and ml: "fails mixedCluster ListNodes = None" "fails mixedCluster GetNodePools = None"
    by (simp_all add: sample_defs)
  have nf: "\<forall>c. workloadCall c \<longrightarrow> fails fixedCluster c = None"
    "\<forall>c. workloadCall c \<longrightarrow> fails mixedCluster c = None"
    by (simp_all add: sample_defs)
  have fa: "\<not> (\<exists>np \<in> set (providerNodePools fixedCluster). np_AutoScaling np)"
    and ma: "\<exists>np \<in> set (providerNodePools mixedCluster). np_AutoScaling np"
    by (simp_all add: sample_defs)
  have fr: "fst ?f = None" and mr: "fst ?m = None"
    by (simp_all add: eval_defs)
  have steps: "fst (SuspendJobs KubecostFlattenerOmit fixedCluster ?w2) = None"
    "fst (Flatten KubecostFlattenerOmit mixedCluster ?w2) = None"
    by (simp_all add: eval_defs)
  have names: "map job_Name (cronJobs (snd (snd ?f))) = [''report'']"
    "map dep_Name (deployments (snd (snd ?m))) = [''kube-dns'', ''api'']"
    "map ds_Name (daemonSets (snd (snd ?m))) = [''fluentd'']"
    "map job_Name (cronJobs (snd (snd ?m))) = [''report'']"
    by (simp_all add: eval_defs)
  have before: "map job_Suspend (cronJobs sampleWorld) = [Some False]"
    "map dep_Replicas (deployments sampleWorld) = [Some 2, Some 5]"
    by (simp_all add: sample_defs)
  have frun: "?f = (fst ?f, fst (snd ?f), snd (snd ?f))"
    and mrun: "?m = (fst ?m, fst (snd ?m), snd (snd ?m))"
    by simp_all
  note f = ScaleDownCluster_flattens_iff_autoscaling [OF frun fl]
  note m = ScaleDownCluster_flattens_iff_autoscaling [OF mrun ml]
  from f fa fr have 1: "deployments (snd (snd ?f)) = deployments sampleWorld"
    "daemonSets (snd (snd ?f)) = daemonSets sampleWorld"
    "autoScaling (fst (snd ?f)) = Some False"
    by simp_all
  from f fa steps(1) nf(1)
  have "\<forall>j \<in> set (cronJobs (snd (snd ?f))).
          job_Name j \<in> set KubecostFlattenerOmit \<or> job_Suspend j = Some True"
    by auto
  with names(1) have 2: "map job_Suspend (cronJobs (snd (snd ?f))) = [Some True]"
    by (auto simp add: KubecostFlattenerOmit_def)
  from m ma mr have 3: "autoScaling (fst (snd ?m)) = Some True"
    by simp
  from m ma steps(2) nf(2)
  have est: "\<forall>d \<in> set (deployments (snd (snd ?m))).
          dep_Name d \<in> set KubecostFlattenerOmit \<or> dep_Replicas d = Some 0"
    "\<forall>s \<in> set (daemonSets (snd (snd ?m))).
          ds_Name s \<in> set KubecostFlattenerOmit
          \<or> lookup (ds_TemplateAnnotations s) ClusterAutoScalerSafeEvict = Some ''true''"
    "\<forall>j \<in> set (cronJobs (snd (snd ?m))).
          job_Name j \<in> set KubecostFlattenerOmit \<or> job_Suspend j = Some True"
    by auto
  from est(2) names(3)
  have 4: "map (\<lambda>s. lookup (ds_TemplateAnnotations s) ClusterAutoScalerSafeEvict)
       (daemonSets (snd (snd ?m))) = [Some ''true'']"
    by (auto simp add: KubecostFlattenerOmit_def)
  from est(3) names(4) have 5: "map job_Suspend (cronJobs (snd (snd ?m))) = [Some True]"
    by (auto simp add: KubecostFlattenerOmit_def)
  have 6: "map dep_Replicas (deployments (snd (snd ?m))) = [Some 2, Some 0]"
    by (simp add: eval_defs)
  from fl ml fa ma before names 1 2 3 4 5 6 show ?thesis by simp
qed

text \<open>
  Claim C8. In a run of \<open>ScaleDownCluster\<close> over nodes with distinct names and node
  pools with distinct names, the drainer is never called for the anchor node; every
  node it is called for is a node of the cluster other than the anchor node whose pool
  does not autoscale; and no pool handed to the resize autoscales or is the pool of the
  anchor node.
\<close>

theorem ScaleDownCluster_spares_anchor:
  assumes run: "ScaleDownCluster env k (w\<lparr>calls := []\<rparr>) = (r, k', w')"
    and nodes_distinct: "distinct (map node_Name (nodes w))"
    and pools_distinct: "distinct (map np_Name (providerNodePools env))"
  shows "Drain (currentNode k) \<notin> set (calls w')
    \<and> (\<forall>name. Drain name \<in> set (calls w') \<longrightarrow>
          (\<exists>n \<in> set (nodes w). node_Name n = name \<and> name \<noteq> currentNode k
             \<and> (\<forall>p \<in> set (providerNodePools env).
                   np_Name p = GetPoolID env n \<longrightarrow> \<not> np_AutoScaling p)))
    \<and> (\<forall>ps z. SetNodePoolSizes ps z \<in> set (calls w') \<longrightarrow>
          (\<forall>p \<in> set ps. \<not> np_AutoScaling p
             \<and> (\<forall>n \<in> set (nodes w). node_Name n = currentNode k \<longrightarrow>
                   np_Name p \<noteq> GetPoolID env n)))"
proof -
  define pools where "pools = snd (classifyPools (providerNodePools env) False Map.empty)"
  have drained: "\<exists>n \<in> set (nodes w). node_Name n = name \<and> name \<noteq> currentNode k
             \<and> (\<forall>p \<in> set (providerNodePools env).
                   np_Name p = GetPoolID env n \<longrightarrow> \<not> np_AutoScaling p)"
    if "Drain name \<in> set (map (\<lambda>n. Drain (node_Name n))
                           (filter (drainable env (currentNode k) pools) (nodes w)))" for name
  proof -
    from that obtain n where n: "n \<in> set (nodes w)" "drainable env (currentNode k) pools n"
        "node_Name n = name"
      by auto
    from n(2) obtain p where p: "pools (GetPoolID env n) = Some p" "\<not> np_AutoScaling p"
        "node_Name n \<noteq> currentNode k"
      by (auto simp add: drainable_def split: option.splits)
    from p(1) have pin: "p \<in> set (providerNodePools env)" "np_Name p = GetPoolID env n"
      using classifyPools_snd [of "providerNodePools env" False Map.empty "GetPoolID env n" p]
      by (simp_all add: pools_def)
    have "\<not> np_AutoScaling q"
      if "q \<in> set (providerNodePools env)" "np_Name q = GetPoolID env n" for q
    proof -
      from that pin pools_distinct have "q = p"
        by (metis distinct_map inj_on_def)
      with p(2) show ?thesis by simp
    qed
    with n p(3) show ?thesis by auto
  qed
  from ScaleDownCluster_calls [OF run pools_def]
  obtain cs where wl: "\<forall>c \<in> set cs. workloadCall c"
    and shape: "(k' = k \<and> r \<noteq> None
                 \<and> (calls w' = calls (w\<lparr>calls := []\<rparr>) @ [ListNodes]
                      \<or> calls w' = calls (w\<lparr>calls := []\<rparr>) @ [ListNodes, GetNodePools] @ cs))
               \<or> (\<exists>cid w3 w4.
                    drainNodes env (currentNode k) pools (nodes (w\<lparr>calls := []\<rparr>)) [] w3 = (cid, w4)
                    \<and> nodePools k' = filterTargetPools cid (providerNodePools env)
                    \<and> autoScaling k' = Some (\<exists>np \<in> set (providerNodePools env). np_AutoScaling np)
                    \<and> r = fails env (SetNodePoolSizes (nodePools k') 0)
                    \<and> calls w' = calls (w\<lparr>calls := []\<rparr>) @ [ListNodes, GetNodePools] @ cs
                         @ map (\<lambda>n. Drain (node_Name n))
                             (filter (drainable env (currentNode k) pools) (nodes (w\<lparr>calls := []\<rparr>)))
                         @ [SetNodePoolSizes (nodePools k') 0])"
    by blast
  from shape show ?thesis
  proof (elim disjE conjE exE)
    assume "calls w' = calls (w\<lparr>calls := []\<rparr>) @ [ListNodes]"
    then show ?thesis by simp
  next
    assume "calls w' = calls (w\<lparr>calls := []\<rparr>) @ [ListNodes, GetNodePools] @ cs"
    with wl show ?thesis
      by (auto dest: workloadCall_not_Drain workloadCall_not_Set)
  next
    fix cid w3 w4
    assume dr: "drainNodes env (currentNode k) pools (nodes (w\<lparr>calls := []\<rparr>)) [] w3 = (cid, w4)"
      and np: "nodePools k' = filterTargetPools cid (providerNodePools env)"
      and c: "calls w' = calls (w\<lparr>calls := []\<rparr>) @ [ListNodes, GetNodePools] @ cs
                         @ map (\<lambda>n. Drain (node_Name n))
                             (filter (drainable env (currentNode k) pools) (nodes (w\<lparr>calls := []\<rparr>)))
                         @ [SetNodePoolSizes (nodePools k') 0]"
    have d_only: "Drain name \<in> set (map (\<lambda>n. Drain (node_Name n))
                           (filter (drainable env (currentNode k) pools) (nodes w)))"
      if "Drain name \<in> set (calls w')" for name
      using that c wl by (auto dest: workloadCall_not_Drain)
    have s_only: "ps = nodePools k'" if "SetNodePoolSizes ps z \<in> set (calls w')" for ps z
      using that c wl by (auto dest: workloadCall_not_Set)
    have anchor: "cid = GetPoolID env n" if "n \<in> set (nodes w)" "node_Name n = currentNode k" for n
      using drainNodes_poolID [OF dr _ _ that(2)] nodes_distinct that(1) by simp
    have 1: "Drain (currentNode k) \<notin> set (calls w')"
      using d_only [of "currentNode k"] by (auto simp add: drainable_def)
    have 2: "\<forall>name. Drain name \<in> set (calls w') \<longrightarrow>
          (\<exists>n \<in> set (nodes w). node_Name n = name \<and> name \<noteq> currentNode k
             \<and> (\<forall>p \<in> set (providerNodePools env).
                   np_Name p = GetPoolID env n \<longrightarrow> \<not> np_AutoScaling p))"
      using d_only drained by blast
    have 3: "\<forall>ps z. SetNodePoolSizes ps z \<in> set (calls w') \<longrightarrow>
          (\<forall>p \<in> set ps. \<not> np_AutoScaling p
             \<and> (\<forall>n \<in> set (nodes w). node_Name n = currentNode k \<longrightarrow>
                   np_Name p \<noteq> GetPoolID env n))"
    proof (intro allI impI ballI)
      fix ps z p
      assume "SetNodePoolSizes ps z \<in> set (calls w')" "p \<in> set ps"
      with s_only np have "p \<in> set (filterTargetPools cid (providerNodePools env))" by simp
      then have "np_Name p \<noteq> cid" "\<not> np_AutoScaling p"
        by (simp_all add: filterTargetPools_filter)
      with anchor show "\<not> np_AutoScaling p
             \<and> (\<forall>n \<in> set (nodes w). node_Name n = currentNode k \<longrightarrow>
                   np_Name p \<noteq> GetPoolID env n)"
        by auto
    qed
    from 1 2 3 show ?thesis by blast
  qed
qed

text \<open>The whole run on the sample cluster with an autoscaling pool: only \<open>node-b\<close> is
  drained and only \<open>fixed-pool\<close> is resized.\<close>

theorem ScaleDownCluster_spares_anchor_witness:
  "distinct (map node_Name (nodes sampleWorld))
   \<and> distinct (map np_Name (providerNodePools mixedCluster))
   \<and> calls (snd (snd (ScaleDownCluster mixedCluster freshManager sampleWorld)))
       = [ListNodes, GetNodePools, ListDeployments, PatchDeployment ''default'' ''api'',
          ListDaemonSets, PatchDaemonSet ''logging'' ''fluentd'',
          ListCronJobs, PatchCronJob ''default'' ''report'',
          Drain ''node-b'', SetNodePoolSizes [fixedPool] 0]
   \<and> Drain (currentNode freshManager)
       \<notin> set (calls (snd (snd (ScaleDownCluster mixedCluster freshManager sampleWorld))))
   \<and> (\<exists>n \<in> set (nodes sampleWorld). node_Name n = ''node-b''
         \<and> ''node-b'' \<noteq> currentNode freshManager
         \<and> (\<forall>p \<in> set (providerNodePools mixedCluster).
               np_Name p = GetPoolID mixedCluster n \<longrightarrow> \<not> np_AutoScaling p))
   \<and> \<not> np_AutoScaling fixedPool
   \<and> node_Name anchorNode = currentNode freshManager
   \<and> np_Name fixedPool \<noteq> GetPoolID mixedCluster anchorNode"
proof -
  let ?m = "ScaleDownCluster mixedCluster freshManager sampleWorld"
  have w: "sampleWorld\<lparr>calls := []\<rparr> = sampleWorld" by (simp add: sample_defs)
  have run: "ScaleDownCluster mixedCluster freshManager (sampleWorld\<lparr>calls := []\<rparr>)
      = (fst ?m, fst (snd ?m), snd (snd ?m))"
    by (simp add: w)
  have dn: "distinct (map node_Name (nodes sampleWorld))"
    and dp: "distinct (map np_Name (providerNodePools mixedCluster))"
    by (simp_all add: sample_defs)
  have trace: "calls (snd (snd ?m))
       = [ListNodes, GetNodePools, ListDeployments, PatchDeployment ''default'' ''api'',
          ListDaemonSets, PatchDaemonSet ''logging'' ''fluentd'',
          ListCronJobs, PatchCronJob ''default'' ''report'',
          Drain ''node-b'', SetNodePoolSizes [fixedPool] 0]"
    by (simp add: eval_defs)
  have anchor: "anchorNode \<in> set (nodes sampleWorld)"
    "node_Name anchorNode = currentNode freshManager"
    by (simp_all add: sample_defs)
  note spared = ScaleDownCluster_spares_anchor [OF run dn dp]
  from spared have 1: "Drain (currentNode freshManager) \<notin> set (calls (snd (snd ?m)))"
    by blast
  from spared have "Drain ''node-b'' \<in> set (calls (snd (snd ?m))) \<longrightarrow>
          (\<exists>n \<in> set (nodes sampleWorld). node_Name n = ''node-b''
             \<and> ''node-b'' \<noteq> currentNode freshManager
             \<and> (\<forall>p \<in> set (providerNodePools mixedCluster).
                   np_Name p = GetPoolID mixedCluster n \<longrightarrow> \<not> np_AutoScaling p))"
    by blast
  with trace have 2: "\<exists>n \<in> set (nodes sampleWorld). node_Name n = ''node-b''
             \<and> ''node-b'' \<noteq> currentNode freshManager
             \<and> (\<forall>p \<in> set (providerNodePools mixedCluster).
                   np_Name p = GetPoolID mixedCluster n \<longrightarrow> \<not> np_AutoScaling p)"
    by simp
  from spared have "SetNodePoolSizes [fixedPool] 0 \<in> set (calls (snd (snd ?m))) \<longrightarrow>
          (\<forall>p \<in> set [fixedPool]. \<not> np_AutoScaling p
             \<and> (\<forall>n \<in> set (nodes sampleWorld). node_Name n = currentNode freshManager \<longrightarrow>
                   np_Name p \<noteq> GetPoolID mixedCluster n))"
    by blast
  with trace anchor have 3: "\<not> np_AutoScaling fixedPool"
    "np_Name fixedPool \<noteq> GetPoolID mixedCluster anchorNode"
    by simp_all
  from dn dp trace 1 2 3 anchor(2) show ?thesis by blast
qed

text \<open>
  Claim C10. Whenever a run of \<open>ScaleDownCluster\<close> reaches the provider's resize, the
  manager already holds the pools of that call and the autoscaling classification, and
  the run returns whatever the resize returns: an error of the resize leaves the record
  in place. A later \<open>ScaleUpCluster\<close> on a non-empty record starts by resetting exactly
  the recorded pools, without listing the pools again, and chooses between \<open>Expand\<close>
  and \<open>ResumeJobs\<close>, each with the manager's list of names to pass over, by the
  recorded classification.
\<close>

theorem ScaleDownCluster_keeps_record_on_resize_failure:
  assumes run: "ScaleDownCluster env k (w\<lparr>calls := []\<rparr>) = (r, k', w')"
    and issued: "SetNodePoolSizes ps z \<in> set (calls w')"
  shows "nodePools k' = ps \<and> z = 0
       \<and> autoScaling k' = Some (\<exists>np \<in> set (providerNodePools env). np_AutoScaling np)
       \<and> r = fails env (SetNodePoolSizes ps z)
       \<and> last (calls w') = SetNodePoolSizes ps z
       \<and> (ps \<noteq> [] \<longrightarrow>
            (\<exists>r2 k2 w3 cs. ScaleUpCluster env2 k' w2 = (r2, k2, w3)
               \<and> calls w3 = calls w2 @ ResetNodePoolSizes ps # cs
               \<and> (fails env2 (ResetNodePoolSizes ps) = None \<longrightarrow>
                    w3 = snd ((if \<exists>np \<in> set (providerNodePools env). np_AutoScaling np
                               then Expand else ResumeJobs) KubecostFlattenerOmit env2
                                (call (ResetNodePoolSizes ps) w2)))))"
proof -
  from ScaleDownCluster_calls [OF run refl]
  obtain cs where wl: "\<forall>c \<in> set cs. workloadCall c"
    and shape: "(k' = k \<and> r \<noteq> None
                 \<and> (calls w' = calls (w\<lparr>calls := []\<rparr>) @ [ListNodes]
                      \<or> calls w' = calls (w\<lparr>calls := []\<rparr>) @ [ListNodes, GetNodePools] @ cs))
               \<or> (autoScaling k' = Some (\<exists>np \<in> set (providerNodePools env). np_AutoScaling np)
                    \<and> r = fails env (SetNodePoolSizes (nodePools k') 0)
                    \<and> calls w' = calls (w\<lparr>calls := []\<rparr>) @ [ListNodes, GetNodePools] @ cs
                         @ map (\<lambda>n. Drain (node_Name n))
                             (filter (drainable env (currentNode k)
                                (snd (classifyPools (providerNodePools env) False Map.empty)))
                                (nodes (w\<lparr>calls := []\<rparr>)))
                         @ [SetNodePoolSizes (nodePools k') 0])"
    by blast
  from shape issued wl
  have rec: "autoScaling k' = Some (\<exists>np \<in> set (providerNodePools env). np_AutoScaling np)"
      "r = fails env (SetNodePoolSizes (nodePools k') 0)"
      "ps = nodePools k'" "z = 0" "last (calls w') = SetNodePoolSizes (nodePools k') 0"
    by (auto dest: workloadCall_not_Set)
  have up: "\<exists>r2 k2 w3 cs. ScaleUpCluster env2 k' w2 = (r2, k2, w3)
               \<and> calls w3 = calls w2 @ ResetNodePoolSizes ps # cs
               \<and> (fails env2 (ResetNodePoolSizes ps) = None \<longrightarrow>
                    w3 = snd ((if \<exists>np \<in> set (providerNodePools env). np_AutoScaling np
                               then Expand else ResumeJobs) KubecostFlattenerOmit env2
                                (call (ResetNodePoolSizes ps) w2)))"
    if "ps \<noteq> []"
  proof -
    from that rec(3) have "ScaleUpCluster env2 k' w2 = resetAndExpand env2 k' w2"
      by (simp add: ScaleUpCluster_def)
    with resetAndExpand_calls [of env2 k' w2] rec(1,3) show ?thesis
      by auto
  qed
  from rec up show ?thesis by simp
qed

text \<open>The provider refuses the resize: the error comes back and the record stays.\<close>

theorem ScaleDownCluster_keeps_record_on_resize_failure_witness:
  "SetNodePoolSizes [fixedPool] 0
     \<in> set (calls (snd (snd (ScaleDownCluster failingResize freshManager sampleWorld))))
   \<and> fst (ScaleDownCluster failingResize freshManager sampleWorld)
       = Some (ApiError ''resize refused'')
   \<and> nodePools (fst (snd (ScaleDownCluster failingResize freshManager sampleWorld))) = [fixedPool]
   \<and> autoScaling (fst (snd (ScaleDownCluster failingResize freshManager sampleWorld))) = Some False
   \<and> take 1 (calls (snd (snd (ScaleUpCluster fixedCluster
        (fst (snd (ScaleDownCluster failingResize freshManager sampleWorld))) sampleWorld))))
       = [ResetNodePoolSizes [fixedPool]]"
proof -
  let ?d = "ScaleDownCluster failingResize freshManager sampleWorld"
  have w: "sampleWorld\<lparr>calls := []\<rparr> = sampleWorld" by (simp add: sample_defs)
  have run: "ScaleDownCluster failingResize freshManager (sampleWorld\<lparr>calls := []\<rparr>)
      = (fst ?d, fst (snd ?d), snd (snd ?d))"
    by (simp add: w)
  have issued: "SetNodePoolSizes [fixedPool] 0 \<in> set (calls (snd (snd ?d)))"
    by (simp add: eval_defs)
  have f: "fails failingResize (SetNodePoolSizes [fixedPool] 0) = Some (ApiError ''resize refused'')"
    and a: "\<not> (\<exists>np \<in> set (providerNodePools failingResize). np_AutoScaling np)"
    by (simp_all add: sample_defs)
  have c: "calls sampleWorld = []" by (simp add: sample_defs)
  note kept = ScaleDownCluster_keeps_record_on_resize_failure
    [OF run issued, of fixedCluster sampleWorld]
  from kept f a have 1: "fst ?d = Some (ApiError ''resize refused'')"
    "nodePools (fst (snd ?d)) = [fixedPool]" "autoScaling (fst (snd ?d)) = Some False"
    by simp_all
  from kept c have 2: "take 1 (calls (snd (snd (ScaleUpCluster fixedCluster (fst (snd ?d)) sampleWorld))))
       = [ResetNodePoolSizes [fixedPool]]"
    by auto
  from issued 1 2 show ?thesis by simp
qed

text \<open>
  Claim C7. \<open>ScaleUpCluster\<close> on an empty record lists the node pools again. If
  the listing fails, its error is returned. If it succeeds, the fixed-size pools become
  the record: when there is none, the call returns the error of having no node pools
  to scale up, having made no other call and changed no object; when there are some,
  the next call resets exactly those pools.
\<close>

theorem ScaleUpCluster_reconstructs_record:
  assumes empty: "nodePools k = []"
  shows "(\<forall>e. fails env GetNodePools = Some e \<longrightarrow>
            ScaleUpCluster env k w = (Some e, k, call GetNodePools w))
       \<and> (fails env GetNodePools = None
            \<and> filter (\<lambda>np. \<not> np_AutoScaling np) (providerNodePools env) = [] \<longrightarrow>
            (\<exists>k'. ScaleUpCluster env k w = (Some NoNodePools, k', call GetNodePools w)
                \<and> nodePools k' = []))
       \<and> (fails env GetNodePools = None
            \<and> filter (\<lambda>np. \<not> np_AutoScaling np) (providerNodePools env) \<noteq> [] \<longrightarrow>
            (\<exists>r k' w' cs. ScaleUpCluster env k w = (r, k', w')
                \<and> calls w' = calls w @ [GetNodePools,
                     ResetNodePoolSizes (filter (\<lambda>np. \<not> np_AutoScaling np) (providerNodePools env))]
                     @ cs))"
proof (intro conjI allI impI)
  fix e
  assume "fails env GetNodePools = Some e"
  with empty show "ScaleUpCluster env k w = (Some e, k, call GetNodePools w)"
    by (simp add: ScaleUpCluster_def loadNodePools_def Let_def)
next
  assume "fails env GetNodePools = None
            \<and> filter (\<lambda>np. \<not> np_AutoScaling np) (providerNodePools env) = []"
  with empty show "\<exists>k'. ScaleUpCluster env k w = (Some NoNodePools, k', call GetNodePools w)
                \<and> nodePools k' = []"
    by (simp add: ScaleUpCluster_def loadNodePools_def Let_def loadLoop_result)
next
  let ?fixed = "filter (\<lambda>np. \<not> np_AutoScaling np) (providerNodePools env)"
  let ?k1 = "k\<lparr>autoScaling := fst (loadLoop (providerNodePools env) (autoScaling k) []),
               nodePools := ?fixed\<rparr>"
  assume a: "fails env GetNodePools = None \<and> ?fixed \<noteq> []"
  with empty have "ScaleUpCluster env k w = resetAndExpand env ?k1 (call GetNodePools w)"
    by (simp add: ScaleUpCluster_def loadNodePools_def Let_def loadLoop_result)
  moreover from resetAndExpand_calls [of env ?k1 "call GetNodePools w"]
  obtain r k2 w3 cs where "resetAndExpand env ?k1 (call GetNodePools w) = (r, k2, w3)"
      "calls w3 = calls (call GetNodePools w) @ ResetNodePoolSizes (nodePools ?k1) # cs"
    by blast
  ultimately show "\<exists>r k' w' cs. ScaleUpCluster env k w = (r, k', w')
                \<and> calls w' = calls w @ [GetNodePools, ResetNodePoolSizes ?fixed] @ cs"
    by (auto simp add: call_fields)
qed

text \<open>A provider with an autoscaling pool only, and one with two fixed-size pools.\<close>

theorem ScaleUpCluster_reconstructs_record_witness:
  "nodePools freshManager = []
   \<and> fails autoscalingOnly GetNodePools = None
   \<and> filter (\<lambda>np. \<not> np_AutoScaling np) (providerNodePools autoscalingOnly) = []
   \<and> fst (ScaleUpCluster autoscalingOnly freshManager sampleWorld) = Some NoNodePools
   \<and> calls (snd (snd (ScaleUpCluster autoscalingOnly freshManager sampleWorld))) = [GetNodePools]
   \<and> filter (\<lambda>np. \<not> np_AutoScaling np) (providerNodePools mixedCluster) = [anchorPool, fixedPool]
   \<and> take 2 (calls (snd (snd (ScaleUpCluster mixedCluster freshManager sampleWorld))))
       = [GetNodePools, ResetNodePoolSizes [anchorPool, fixedPool]]"
proof -
  have e: "nodePools freshManager = []" by (simp add: sample_defs)
  have a: "fails autoscalingOnly GetNodePools = None"
    "filter (\<lambda>np. \<not> np_AutoScaling np) (providerNodePools autoscalingOnly) = []"
    by (simp_all add: sample_defs)
  have m: "fails mixedCluster GetNodePools = None"
    "filter (\<lambda>np. \<not> np_AutoScaling np) (providerNodePools mixedCluster) = [anchorPool, fixedPool]"
    by (simp_all add: sample_defs)
  have c: "calls sampleWorld = []" by (simp add: sample_defs)
  from ScaleUpCluster_reconstructs_record [OF e, of autoscalingOnly sampleWorld] a c
  have 1: "fst (ScaleUpCluster autoscalingOnly freshManager sampleWorld) = Some NoNodePools"
    "calls (snd (snd (ScaleUpCluster autoscalingOnly freshManager sampleWorld))) = [GetNodePools]"
    by (auto simp add: call_fields)
  from ScaleUpCluster_reconstructs_record [OF e, of mixedCluster sampleWorld] m c
  have 2: "take 2 (calls (snd (snd (ScaleUpCluster mixedCluster freshManager sampleWorld))))
       = [GetNodePools, ResetNodePoolSizes [anchorPool, fixedPool]]"
    by auto
  from e a m 1 2 show ?thesis by simp
qed

end
